theory Spec2Isabelle
  imports Main "HOL-Library.Multiset"
begin

section \<open>Data model of main.go\<close>

text \<open>
  The structs of main.go as records. A Go slice of strings is a \<open>string list\<close>; the
  response slices are created as empty non-nil slices and only ever appended to.
\<close>

record TwilioConfig =
  AccountSID :: string
  AuthToken :: string
  FromPhone :: string

record SMSRequest =
  To :: "string list"
  Message :: string

record SMSResponse =
  Sent :: "string list"
  Failed :: "string list"
  Total :: int

text \<open>
  The parameters handed to the provider by \<open>sendSMS\<close> (\<open>SetTo\<close>, \<open>SetFrom\<close>,
  \<open>SetBody\<close> on \<open>openapi.CreateMessageParams\<close>).
\<close>

record CreateMessageParams =
  pTo :: string
  pFrom :: string
  pBody :: string

text \<open>
  The process-wide variables \<open>twilioConfig\<close> and \<open>twilioClient\<close>. The client is the
  external provider: \<open>CreateMessage\<close> answers \<open>None\<close> for success and \<open>Some e\<close> for
  a provider error \<open>e\<close> of any kind \<open>'e\<close>. Its answer is outside the program's control and
  may differ from one invocation to the next, so it also depends on which invocation it
  is (a number: for the bulk dispatcher, the position of the recipient in the request).
  \<open>errorText\<close> is the rendering of a provider error by the format verb \<open>%v\<close>.
\<close>

record 'e twilio =
  twilioConfig :: TwilioConfig
  CreateMessage :: "nat \<Rightarrow> CreateMessageParams \<Rightarrow> 'e option"
  errorText :: "'e \<Rightarrow> string"

section \<open>sendSMS\<close>

text \<open>
  \<open>sendSMS\<close> builds the parameters, calls the provider once and wraps a provider error
  with \<open>fmt.Errorf("error al enviar SMS: %v", err)\<close>. A Go \<open>error\<close> made by
  \<open>fmt.Errorf\<close> is its message; \<open>None\<close> is \<open>nil\<close>. The log of provider calls is threaded
  through as explicit state.
\<close>

definition sendSMS_params :: "'e twilio \<Rightarrow> string \<Rightarrow> string \<Rightarrow> CreateMessageParams" where
  "sendSMS_params E to message =
     \<lparr>pTo = to, pFrom = FromPhone (twilioConfig E), pBody = message\<rparr>"

definition sendSMS_err :: "'e twilio \<Rightarrow> 'e option \<Rightarrow> string option" where
  "sendSMS_err E r =
     (case r of
        Some e \<Rightarrow> Some (''error al enviar SMS: '' @ errorText E e)
      | None \<Rightarrow> None)"

definition sendSMS ::
  "'e twilio \<Rightarrow> nat \<Rightarrow> string \<Rightarrow> string \<Rightarrow> CreateMessageParams list
     \<Rightarrow> string option \<times> CreateMessageParams list" where
  "sendSMS E k to message log =
     (let params = sendSMS_params E to message
      in (sendSMS_err E (CreateMessage E k params), log @ [params]))"

section \<open>sendBulkSMS: goroutines as an interleaving of atomic steps\<close>

text \<open>
  Each goroutine started by \<open>sendBulkSMS\<close> runs the same closure. Its program counter
  names the statement it executes next:
  \<^item> \<open>WStart\<close>: \<open>semaphore <- struct{}{}\<close> (after \<open>defer wg.Done()\<close> was registered);
  \<^item> \<open>WAcquired\<close>: the call of \<open>sendSMS\<close>, which invokes the provider;
  \<^item> \<open>WSending\<close>: the provider call is in flight; next it returns and \<open>err\<close> is set
    (the provider always answers, with success or with an error);
  \<^item> \<open>WCalled\<close>: \<open>mu.Lock()\<close>;
  \<^item> \<open>WLocked\<close>: the append to \<open>Failed\<close> or \<open>Sent\<close>;
  \<^item> \<open>WAppended\<close>: \<open>mu.Unlock()\<close>;
  \<^item> \<open>WUnlocked\<close>: the deferred \<open><-semaphore\<close>;
  \<^item> \<open>WReleased\<close>: the deferred \<open>wg.Done()\<close>;
  \<^item> \<open>WDone\<close>: the goroutine has ended.
\<close>

datatype wpc =
  WStart | WAcquired | WSending | WCalled | WLocked | WAppended | WUnlocked | WReleased | WDone

record worker =
  wto :: string
  pc :: wpc
  err :: "string option"

text \<open>
  The calling goroutine is in the \<open>for ... range recipients\<close> loop with the recipients
  still to be launched (the loop exit is followed by \<open>wg.Wait()\<close>), or it has returned
  the response. One iteration of the loop, \<open>wg.Add(1)\<close> and the \<open>go\<close> statement, is one
  step: nothing else reads the counter in between. \<open>wg.Wait()\<close> and the \<open>return\<close> that
  follows it are one step as well, taken when the counter is zero.
\<close>

datatype mpc = MLoop "string list" | MReturned SMSResponse

record state =
  main :: mpc
  workers :: "worker list"
  semaphore :: nat
  mu :: bool
  wg :: nat
  response :: SMSResponse
  calls :: "CreateMessageParams list"

definition semaphore_cap :: nat where
  "semaphore_cap = 10"

definition sendBulkSMS_init :: "string list \<Rightarrow> state" where
  "sendBulkSMS_init recipients =
     \<lparr>main = MLoop recipients, workers = [], semaphore = 0, mu = False, wg = 0,
      response = \<lparr>Sent = [], Failed = [], Total = int (length recipients)\<rparr>,
      calls = []\<rparr>"

datatype actor = Main | Worker nat

text \<open>
  What happens when the scheduler picks an actor: it takes its next step, it cannot
  take one now (it is blocked on the channel, the mutex or the wait group, or it has
  ended), or it panics (\<open>wg.Done()\<close> on a zero counter, \<open>mu.Unlock()\<close> of an unlocked
  mutex).
\<close>

datatype outcome = Steps state | NoStep | Panics

definition set_worker :: "nat \<Rightarrow> worker \<Rightarrow> state \<Rightarrow> state" where
  "set_worker i w s = s\<lparr>workers := (workers s)[i := w]\<rparr>"

definition record_outcome :: "worker \<Rightarrow> SMSResponse \<Rightarrow> SMSResponse" where
  "record_outcome w r =
     (if err w \<noteq> None then r\<lparr>Failed := Failed r @ [wto w]\<rparr>
      else r\<lparr>Sent := Sent r @ [wto w]\<rparr>)"

fun worker_step :: "'e twilio \<Rightarrow> string \<Rightarrow> nat \<Rightarrow> worker \<Rightarrow> state \<Rightarrow> outcome" where
  "worker_step E message i w s =
     (case pc w of
        WStart \<Rightarrow>
          if semaphore s < semaphore_cap
          then Steps (set_worker i (w\<lparr>pc := WAcquired\<rparr>) (s\<lparr>semaphore := semaphore s + 1\<rparr>))
          else NoStep
      | WAcquired \<Rightarrow>
          Steps (set_worker i (w\<lparr>pc := WSending\<rparr>)
                   (s\<lparr>calls := calls s @ [sendSMS_params E (wto w) message]\<rparr>))
      | WSending \<Rightarrow>
          Steps (set_worker i
                   (w\<lparr>pc := WCalled,
                      err := sendSMS_err E
                               (CreateMessage E i (sendSMS_params E (wto w) message))\<rparr>) s)
      | WCalled \<Rightarrow>
          if mu s then NoStep
          else Steps (set_worker i (w\<lparr>pc := WLocked\<rparr>) (s\<lparr>mu := True\<rparr>))
      | WLocked \<Rightarrow>
          Steps (set_worker i (w\<lparr>pc := WAppended\<rparr>)
                   (s\<lparr>response := record_outcome w (response s)\<rparr>))
      | WAppended \<Rightarrow>
          if mu s then Steps (set_worker i (w\<lparr>pc := WUnlocked\<rparr>) (s\<lparr>mu := False\<rparr>))
          else Panics
      | WUnlocked \<Rightarrow>
          if semaphore s = 0 then NoStep
          else Steps (set_worker i (w\<lparr>pc := WReleased\<rparr>) (s\<lparr>semaphore := semaphore s - 1\<rparr>))
      | WReleased \<Rightarrow>
          if wg s = 0 then Panics
          else Steps (set_worker i (w\<lparr>pc := WDone\<rparr>) (s\<lparr>wg := wg s - 1\<rparr>))
      | WDone \<Rightarrow> NoStep)"

fun main_step :: "state \<Rightarrow> outcome" where
  "main_step s =
     (case main s of
        MLoop (recipient # rest) \<Rightarrow>
          Steps (s\<lparr>main := MLoop rest, wg := wg s + 1,
                   workers := workers s @ [\<lparr>wto = recipient, pc = WStart, err = None\<rparr>]\<rparr>)
      | MLoop [] \<Rightarrow>
          if wg s = 0 then Steps (s\<lparr>main := MReturned (response s)\<rparr>) else NoStep
      | MReturned r \<Rightarrow> NoStep)"

fun fire :: "'e twilio \<Rightarrow> string \<Rightarrow> actor \<Rightarrow> state \<Rightarrow> outcome" where
  "fire E message Main s = main_step s"
| "fire E message (Worker i) s =
     (if i < length (workers s) then worker_step E message i (workers s ! i) s else NoStep)"

text \<open>Running a schedule: the actors take their steps in the order the scheduler picks.\<close>

fun exec :: "'e twilio \<Rightarrow> string \<Rightarrow> actor list \<Rightarrow> state \<Rightarrow> state option" where
  "exec E message [] s = Some s"
| "exec E message (a # sched) s =
     (case fire E message a s of Steps s' \<Rightarrow> exec E message sched s' | _ \<Rightarrow> None)"

inductive reach :: "'e twilio \<Rightarrow> string \<Rightarrow> string list \<Rightarrow> state \<Rightarrow> bool"
  for E :: "'e twilio" and message :: string and recipients :: "string list" where
  reach_init: "reach E message recipients (sendBulkSMS_init recipients)"
| reach_step: "reach E message recipients s \<Longrightarrow> fire E message a s = Steps s'
     \<Longrightarrow> reach E message recipients s'"

text \<open>
  \<open>sendBulkSMS\<close> under a schedule: the response the caller receives together with the log
  of provider calls, when the schedule is a complete run (every picked actor could take
  its step and the last step is the caller's return); \<open>None\<close> for any other schedule.
  Logging (\<open>log.Printf\<close>) has no effect on the result and is left out.
\<close>

definition sendBulkSMS ::
  "'e twilio \<Rightarrow> actor list \<Rightarrow> string list \<Rightarrow> string
     \<Rightarrow> (SMSResponse \<times> CreateMessageParams list) option" where
  "sendBulkSMS E sched recipients message =
     (case exec E message sched (sendBulkSMS_init recipients) of
        Some s \<Rightarrow> (case main s of MReturned r \<Rightarrow> Some (r, calls s) | MLoop rest \<Rightarrow> None)
      | None \<Rightarrow> None)"

section \<open>The HTTP handlers\<close>

text \<open>
  A response is its status code and what was written to the body: the text given to
  \<open>http.Error\<close> (which appends a newline), or the value given to the JSON encoder.
  Headers are not modelled. The request is its method and its body; the JSON decoder of
  the standard library is a parameter \<open>decode\<close> of the handlers, answering \<open>Inl\<close> with
  its error or \<open>Inr\<close> with the decoded struct. The single endpoint makes one provider
  call, invocation number 0, starting from an empty call log.
\<close>

datatype payload =
  PlainText string
| StatusJSON "(string \<times> string) list"
| BulkJSON SMSResponse

record http_response =
  status :: nat
  payload :: payload

record SingleRequest =
  sTo :: string
  sMessage :: string

definition MethodPost :: string where
  "MethodPost = ''POST''"

definition StatusOK :: nat where
  "StatusOK = 200"

definition StatusBadRequest :: nat where
  "StatusBadRequest = 400"

definition StatusMethodNotAllowed :: nat where
  "StatusMethodNotAllowed = 405"

definition StatusInternalServerError :: nat where
  "StatusInternalServerError = 500"

definition http_Error :: "string \<Rightarrow> nat \<Rightarrow> http_response" where
  "http_Error msg code = \<lparr>status = code, payload = PlainText (msg @ [CHR 0x0A])\<rparr>"

text \<open>The two texts with an accented letter, as the UTF-8 bytes of the source file.\<close>

definition metodo_no_permitido :: string where
  "metodo_no_permitido = ''M'' @ [CHR 0xC3, CHR 0xA9] @ ''todo no permitido''"

definition request_invalido :: string where
  "request_invalido = ''Request inv'' @ [CHR 0xC3, CHR 0xA1] @ ''lido''"

definition sendSMSHandler ::
  "'e twilio \<Rightarrow> ('b \<Rightarrow> string + SingleRequest) \<Rightarrow> string \<Rightarrow> 'b
     \<Rightarrow> http_response \<times> CreateMessageParams list" where
  "sendSMSHandler E decode method body =
     (if method \<noteq> MethodPost
      then (http_Error metodo_no_permitido StatusMethodNotAllowed, [])
      else case decode body of
        Inl e \<Rightarrow> (http_Error request_invalido StatusBadRequest, [])
      | Inr req \<Rightarrow>
          (case sendSMS E 0 (sTo req) (sMessage req) [] of
             (Some e, log) \<Rightarrow>
               (http_Error (''Error al enviar SMS: '' @ e) StatusInternalServerError, log)
           | (None, log) \<Rightarrow>
               (\<lparr>status = StatusOK,
                 payload = StatusJSON [(''status'', ''success''),
                                       (''message'', ''SMS enviado correctamente''),
                                       (''to'', sTo req)]\<rparr>, log)))"

text \<open>
  The bulk handler under a schedule of the goroutines of \<open>sendBulkSMS\<close>; \<open>None\<close> when the
  schedule is not a complete run of the dispatch.
\<close>

definition sendBulkSMSHandler ::
  "'e twilio \<Rightarrow> ('b \<Rightarrow> string + SMSRequest) \<Rightarrow> actor list \<Rightarrow> string \<Rightarrow> 'b
     \<Rightarrow> (http_response \<times> CreateMessageParams list) option" where
  "sendBulkSMSHandler E decode sched method body =
     (if method \<noteq> MethodPost
      then Some (http_Error metodo_no_permitido StatusMethodNotAllowed, [])
      else case decode body of
        Inl e \<Rightarrow> Some (http_Error request_invalido StatusBadRequest, [])
      | Inr req \<Rightarrow>
          (case sendBulkSMS E sched (To req) (Message req) of
             Some (resp, log) \<Rightarrow> Some (\<lparr>status = StatusOK, payload = BulkJSON resp\<rparr>, log)
           | None \<Rightarrow> None))"

section \<open>Where a goroutine stands, and the invariants of the dispatcher\<close>

text \<open>
  Readings of a program counter: the goroutine holds a slot of the semaphore (it has
  sent into the channel and not yet received from it), it holds the mutex, it has not
  ended, it has started its provider call, its \<open>sendSMS\<close> has returned, it has appended
  its recipient to \<open>Sent\<close> or \<open>Failed\<close>.
\<close>

fun holds_slot :: "wpc \<Rightarrow> bool" where
  "holds_slot WAcquired = True"
| "holds_slot WSending = True"
| "holds_slot WCalled = True"
| "holds_slot WLocked = True"
| "holds_slot WAppended = True"
| "holds_slot WUnlocked = True"
| "holds_slot _ = False"

fun holds_mutex :: "wpc \<Rightarrow> bool" where
  "holds_mutex WLocked = True"
| "holds_mutex WAppended = True"
| "holds_mutex _ = False"

fun running :: "wpc \<Rightarrow> bool" where
  "running WDone = False"
| "running _ = True"

fun has_called :: "wpc \<Rightarrow> bool" where
  "has_called WStart = False"
| "has_called WAcquired = False"
| "has_called _ = True"

fun has_result :: "wpc \<Rightarrow> bool" where
  "has_result WStart = False"
| "has_result WAcquired = False"
| "has_result WSending = False"
| "has_result _ = True"

fun has_recorded :: "wpc \<Rightarrow> bool" where
  "has_recorded WAppended = True"
| "has_recorded WUnlocked = True"
| "has_recorded WReleased = True"
| "has_recorded WDone = True"
| "has_recorded _ = False"

text \<open>
  The invariants of the dispatcher, one per shared variable: the channel holds as many
  tokens as goroutines hold a slot, and never more than its capacity; the mutex is locked
  exactly when one goroutine is between \<open>Lock\<close> and \<open>Unlock\<close>; the wait group counts
  the goroutines that have not ended; \<open>Sent\<close> and \<open>Failed\<close> hold the recipients of the
  goroutines that have recorded a success or a failure; the provider was called once by
  every goroutine that got that far; \<open>err\<close> is what \<open>sendSMS\<close> returned for the
  goroutine's own provider call; the goroutines launched so far and the recipients still
  to be launched make up the request, and once the caller has returned its result is the
  response and the wait group is at zero.
\<close>

definition workers_at :: "(wpc \<Rightarrow> bool) \<Rightarrow> worker list \<Rightarrow> nat" where
  "workers_at P ws = length (filter (\<lambda>w. P (pc w)) ws)"

definition inv_sem :: "state \<Rightarrow> bool" where
  "inv_sem s \<longleftrightarrow> semaphore s = workers_at holds_slot (workers s) \<and> semaphore s \<le> semaphore_cap"

definition inv_mu :: "state \<Rightarrow> bool" where
  "inv_mu s \<longleftrightarrow> workers_at holds_mutex (workers s) = (if mu s then 1 else 0)"

definition inv_wg :: "state \<Rightarrow> bool" where
  "inv_wg s \<longleftrightarrow> wg s = workers_at running (workers s)"

definition sent_by :: "worker \<Rightarrow> bool" where
  "sent_by w \<longleftrightarrow> has_recorded (pc w) \<and> err w = None"

definition failed_by :: "worker \<Rightarrow> bool" where
  "failed_by w \<longleftrightarrow> has_recorded (pc w) \<and> err w \<noteq> None"

definition inv_resp :: "string list \<Rightarrow> state \<Rightarrow> bool" where
  "inv_resp recipients s \<longleftrightarrow>
     Total (response s) = int (length recipients) \<and>
     mset (Sent (response s)) = mset (map wto (filter sent_by (workers s))) \<and>
     mset (Failed (response s)) = mset (map wto (filter failed_by (workers s)))"

definition inv_calls :: "'e twilio \<Rightarrow> string \<Rightarrow> state \<Rightarrow> bool" where
  "inv_calls E message s \<longleftrightarrow>
     mset (calls s) =
       mset (map (\<lambda>w. sendSMS_params E (wto w) message)
              (filter (\<lambda>w. has_called (pc w)) (workers s)))"

definition inv_err :: "'e twilio \<Rightarrow> string \<Rightarrow> state \<Rightarrow> bool" where
  "inv_err E message s \<longleftrightarrow>
     (\<forall>i < length (workers s).
        err (workers s ! i) =
          (if has_result (pc (workers s ! i))
           then sendSMS_err E (CreateMessage E i (sendSMS_params E (wto (workers s ! i)) message))
           else None))"

definition inv_main :: "string list \<Rightarrow> state \<Rightarrow> bool" where
  "inv_main recipients s \<longleftrightarrow>
     (case main s of
        MLoop rest \<Rightarrow> map wto (workers s) @ rest = recipients
      | MReturned r \<Rightarrow> map wto (workers s) = recipients \<and> r = response s \<and> wg s = 0)"

definition inv :: "'e twilio \<Rightarrow> string \<Rightarrow> string list \<Rightarrow> state \<Rightarrow> bool" where
  "inv E message recipients s \<longleftrightarrow>
     inv_sem s \<and> inv_mu s \<and> inv_wg s \<and> inv_resp recipients s \<and> inv_calls E message s \<and>
     inv_err E message s \<and> inv_main recipients s"

text \<open>
  The number of steps a state still has to take. It falls by one with every step, so no
  run goes on for ever.
\<close>

fun steps_left :: "wpc \<Rightarrow> nat" where
  "steps_left WStart = 8"
| "steps_left WAcquired = 7"
| "steps_left WSending = 6"
| "steps_left WCalled = 5"
| "steps_left WLocked = 4"
| "steps_left WAppended = 3"
| "steps_left WUnlocked = 2"
| "steps_left WReleased = 1"
| "steps_left WDone = 0"

definition work :: "state \<Rightarrow> nat" where
  "work s =
     (case main s of MLoop rest \<Rightarrow> 1 + 9 * length rest | MReturned r \<Rightarrow> 0)
     + sum_list (map (\<lambda>w. steps_left (pc w)) (workers s))"

text \<open>
  Some actor can take a step.
\<close>

definition can_step :: "'e twilio \<Rightarrow> string \<Rightarrow> state \<Rightarrow> bool" where
  "can_step E message s \<longleftrightarrow> (\<exists>a s'. fire E message a s = Steps s')"

text \<open>
  The provider accepts the call made for occurrence \<open>i\<close> of the recipient list.
\<close>

definition delivered :: "'e twilio \<Rightarrow> string \<Rightarrow> string list \<Rightarrow> nat \<Rightarrow> bool" where
  "delivered E message recipients i \<longleftrightarrow>
     CreateMessage E i (sendSMS_params E (recipients ! i) message) = None"

section \<open>Concrete inputs\<close>

text \<open>
  A provider that rejects the number \<open>+2\<close> and accepts every other one, a request with
  a duplicated recipient, and one complete interleaving of its four goroutines in which
  the goroutines record their outcomes in the order 2, 3, 0, 1.
\<close>

definition demo_twilio :: "string twilio" where
  "demo_twilio =
     \<lparr>twilioConfig = \<lparr>AccountSID = ''AC1'', AuthToken = ''secret'', FromPhone = ''+15550100''\<rparr>,
      CreateMessage = (\<lambda>k p. if pTo p = ''+2'' then Some ''invalid number'' else None),
      errorText = (\<lambda>e. e)\<rparr>"

definition demo_recipients :: "string list" where
  "demo_recipients = [''+1'', ''+2'', ''+3'', ''+2'']"

definition demo_sched :: "actor list" where
  "demo_sched =
     [Main, Main, Main, Main, Worker 3, Worker 2, Worker 2, Worker 0, Worker 2, Worker 1,
      Worker 3, Worker 2, Worker 3, Worker 0, Worker 2, Worker 1, Worker 2, Worker 3,
      Worker 0, Worker 1, Worker 2, Worker 2, Worker 3, Worker 3, Worker 0, Worker 0,
      Worker 3, Worker 0, Worker 3, Worker 1, Worker 1, Worker 1, Worker 0, Worker 0,
      Worker 1, Worker 1, Main]"

definition demo_final :: state where
  "demo_final = the (exec demo_twilio ''hi'' demo_sched (sendBulkSMS_init demo_recipients))"

text \<open>
  Twelve recipients: all goroutines are launched, the first ten take a slot and start
  their provider call, and the other two wait for a slot. The call of goroutine 1 (to
  the rejected number) then returns its error, and the goroutine records the failure and
  unlocks the mutex: it still holds its slot and is about to release it.
\<close>

definition gate_recipients :: "string list" where
  "gate_recipients =
     [''+10'', ''+2'', ''+12'', ''+13'', ''+14'', ''+15'', ''+16'', ''+17'', ''+18'', ''+19'',
      ''+20'', ''+21'']"

definition gate_sched :: "actor list" where
  "gate_sched =
     replicate 12 Main @ map Worker [0..<10] @ map Worker [0..<10]
       @ [Worker 1, Worker 1, Worker 1, Worker 1]"

definition gate_state :: state where
  "gate_state = the (exec demo_twilio ''hi'' gate_sched (sendBulkSMS_init gate_recipients))"

text \<open>Decoders that know three request bodies each and reject every other body.\<close>

definition demo_decode_bulk :: "string \<Rightarrow> string + SMSRequest" where
  \<open>demo_decode_bulk body =
     (if body = ''{"to":["+1","+2","+3","+2"],"message":"hi"}''
      then Inr \<lparr>To = demo_recipients, Message = ''hi''\<rparr>
      else if body = ''{"message":"hi"}'' \<or> body = ''{"to":null,"message":"hi"}''
      then Inr \<lparr>To = [], Message = ''hi''\<rparr>
      else Inl ''invalid character'')\<close>

definition demo_decode_single :: "string \<Rightarrow> string + SingleRequest" where
  \<open>demo_decode_single body =
     (if body = ''{"to":"+1","message":"hi"}''
      then Inr \<lparr>sTo = ''+1'', sMessage = ''hi''\<rparr>
      else if body = ''{"to":"+2","message":"hi"}''
      then Inr \<lparr>sTo = ''+2'', sMessage = ''hi''\<rparr>
      else Inl ''invalid character'')\<close>

section \<open>The JSON decoder of the standard library\<close>

text \<open>
  Both handlers read the request with \<open>json.NewDecoder(r.Body).Decode(&req)\<close>. The
  package \<open>encoding/json\<close> belongs to the Go standard library, not to the repository;
  what follows is a model of what \<open>Decode\<close> does with the bytes of a body for the two
  request structs, following the library's scanner and decoder. \<open>Decode\<close> reads the first
  JSON value of the stream, stops there, and stores it into the struct; the bytes after
  that value are not looked at.
\<close>

datatype json =
  JNull | JBool bool | JNumber string | JString string
| JArray "json list" | JObject "(string \<times> json) list"

subsection \<open>Lexical structure\<close>

text \<open>
  Bytes: the four white space characters, digits, and the value of a hexadecimal digit.
\<close>

definition isSpace :: "char \<Rightarrow> bool" where
  "isSpace c \<longleftrightarrow> c = CHR '' '' \<or> c = CHR 0x09 \<or> c = CHR 0x0D \<or> c = CHR 0x0A"

definition byte :: "char \<Rightarrow> nat" where
  "byte c = of_char c"

definition isDigit :: "char \<Rightarrow> bool" where
  "isDigit c \<longleftrightarrow> 48 \<le> byte c \<and> byte c \<le> 57"

definition hexval :: "char \<Rightarrow> nat option" where
  "hexval c =
     (if 48 \<le> byte c \<and> byte c \<le> 57 then Some (byte c - 48)
      else if 97 \<le> byte c \<and> byte c \<le> 102 then Some (byte c - 87)
      else if 65 \<le> byte c \<and> byte c \<le> 70 then Some (byte c - 55)
      else None)"

text \<open>
  The body of a string literal after its opening quote, up to the closing quote, as the
  scanner accepts it: an escape is a backslash followed by one of \<open>b f n r t /\<close>, a
  backslash or a quote, or by \<open>u\<close> and four hexadecimal digits, and a byte below
  \<open>0x20\<close> is an error.
\<close>

fun string_lit :: "string \<Rightarrow> string option" where
  "string_lit [] = None"
| "string_lit (c # cs) =
     (if c = CHR 0x22 then Some []
      else if c = CHR 0x5C then
        (case cs of
           [] \<Rightarrow> None
         | e # cs' \<Rightarrow>
             if e \<in> set ''bfnrt/'' \<or> e = CHR 0x5C \<or> e = CHR 0x22
             then map_option (\<lambda>raw. c # e # raw) (string_lit cs')
             else if e = CHR ''u'' then
               (case cs' of
                  h1 # h2 # h3 # h4 # cs'' \<Rightarrow>
                    if hexval h1 \<noteq> None \<and> hexval h2 \<noteq> None \<and> hexval h3 \<noteq> None
                       \<and> hexval h4 \<noteq> None
                    then map_option (\<lambda>raw. c # e # h1 # h2 # h3 # h4 # raw) (string_lit cs'')
                    else None
                | _ \<Rightarrow> None)
             else None)
      else if byte c < 32 then None
      else map_option (\<lambda>raw. c # raw) (string_lit cs))"

text \<open>
  A number literal, as the states of the scanner accept it: an optional minus, then
  \<open>0\<close> or a digit from 1 to 9 with further digits, an optional fraction with at least one
  digit, an optional exponent with at least one digit. A point or an exponent mark that
  is not followed by a digit is an error; any other byte ends the literal.
\<close>

definition exponent_lit :: "string \<Rightarrow> string \<Rightarrow> string option" where
  "exponent_lit txt r =
     (case r of
        [] \<Rightarrow> Some txt
      | e # r1 \<Rightarrow>
          if e = CHR ''e'' \<or> e = CHR ''E'' then
            (let sg = (case r1 of [] \<Rightarrow> [] | x # r2 \<Rightarrow> if x = CHR ''+'' \<or> x = CHR ''-'' then [x] else []);
                 ds = takeWhile isDigit (drop (length sg) r1)
             in if ds = [] then None else Some (txt @ [e] @ sg @ ds))
          else Some txt)"

definition fraction_lit :: "string \<Rightarrow> string \<Rightarrow> string option" where
  "fraction_lit txt r =
     (case r of
        [] \<Rightarrow> Some txt
      | p # r1 \<Rightarrow>
          if p = CHR ''.'' then
            (let ds = takeWhile isDigit r1
             in if ds = [] then None
                else exponent_lit (txt @ [p] @ ds) (dropWhile isDigit r1))
          else exponent_lit txt r)"

definition number_lit :: "string \<Rightarrow> string option" where
  "number_lit s =
     (let sg = (case s of [] \<Rightarrow> [] | x # r \<Rightarrow> if x = CHR ''-'' then [x] else [])
      in case drop (length sg) s of
           [] \<Rightarrow> None
         | d # r \<Rightarrow>
             if d = CHR ''0'' then fraction_lit (sg @ [d]) r
             else if isDigit d
             then fraction_lit (sg @ d # takeWhile isDigit r) (dropWhile isDigit r)
             else None)"

text \<open>
  \<open>unquote\<close> turns the body of a string literal into the string: escapes are replaced,
  \<open>u\<close> escapes become UTF-8 (a surrogate pair becomes one rune, a surrogate without
  its partner the replacement character \<open>U+FFFD\<close>), well-formed UTF-8 is copied, and
  every byte that is not part of well-formed UTF-8 becomes \<open>U+FFFD\<close>. \<open>utf8_len\<close> is the
  length of the well-formed UTF-8 sequence of two to four bytes at the head of a string,
  or 0 when there is none.
\<close>

definition continuation :: "nat \<Rightarrow> nat \<Rightarrow> char \<Rightarrow> bool" where
  "continuation lo hi c \<longleftrightarrow> lo \<le> byte c \<and> byte c \<le> hi"

definition utf8_len :: "string \<Rightarrow> nat" where
  "utf8_len s =
     (case s of
        [] \<Rightarrow> 0
      | c # cs \<Rightarrow>
          let b = byte c;
              two = (case cs of b1 # _ \<Rightarrow> continuation 0x80 0xBF b1 | _ \<Rightarrow> False);
              three = (\<lambda>lo hi. case cs of b1 # b2 # _ \<Rightarrow>
                         continuation lo hi b1 \<and> continuation 0x80 0xBF b2 | _ \<Rightarrow> False);
              four = (\<lambda>lo hi. case cs of b1 # b2 # b3 # _ \<Rightarrow>
                         continuation lo hi b1 \<and> continuation 0x80 0xBF b2
                         \<and> continuation 0x80 0xBF b3 | _ \<Rightarrow> False)
          in if 0xC2 \<le> b \<and> b \<le> 0xDF then (if two then 2 else 0)
             else if b = 0xE0 then (if three 0xA0 0xBF then 3 else 0)
             else if b = 0xED then (if three 0x80 0x9F then 3 else 0)
             else if 0xE1 \<le> b \<and> b \<le> 0xEF then (if three 0x80 0xBF then 3 else 0)
             else if b = 0xF0 then (if four 0x90 0xBF then 4 else 0)
             else if 0xF1 \<le> b \<and> b \<le> 0xF3 then (if four 0x80 0xBF then 4 else 0)
             else if b = 0xF4 then (if four 0x80 0x8F then 4 else 0)
             else 0)"

definition replacement_char :: string where
  "replacement_char = [CHR 0xEF, CHR 0xBF, CHR 0xBD]"

definition encode_rune :: "nat \<Rightarrow> string" where
  "encode_rune r =
     (if r < 0x80 then [char_of r]
      else if r < 0x800 then [char_of (0xC0 + r div 64), char_of (0x80 + r mod 64)]
      else if 0xD800 \<le> r \<and> r < 0xE000 then replacement_char
      else if r < 0x10000
      then [char_of (0xE0 + r div 4096), char_of (0x80 + r div 64 mod 64),
            char_of (0x80 + r mod 64)]
      else if r < 0x110000
      then [char_of (0xF0 + r div 262144), char_of (0x80 + r div 4096 mod 64),
            char_of (0x80 + r div 64 mod 64), char_of (0x80 + r mod 64)]
      else replacement_char)"

definition getu4 :: "string \<Rightarrow> nat option" where
  "getu4 s =
     (case s of
        b # u # h1 # h2 # h3 # h4 # _ \<Rightarrow>
          if b = CHR 0x5C \<and> u = CHR ''u'' then
            (case (hexval h1, hexval h2, hexval h3, hexval h4) of
               (Some a, Some b, Some c, Some d) \<Rightarrow> Some (((a * 16 + b) * 16 + c) * 16 + d)
             | _ \<Rightarrow> None)
          else None
      | _ \<Rightarrow> None)"

definition escape_char :: "char \<Rightarrow> char" where
  "escape_char e =
     (if e = CHR ''b'' then CHR 0x08 else if e = CHR ''f'' then CHR 0x0C
      else if e = CHR ''n'' then CHR 0x0A else if e = CHR ''r'' then CHR 0x0D
      else if e = CHR ''t'' then CHR 0x09 else e)"

function unquote :: "string \<Rightarrow> string" where
  "unquote [] = []"
| "unquote (c # cs) =
     (if c = CHR 0x5C then
        (case cs of
           [] \<Rightarrow> []
         | e # cs' \<Rightarrow>
             if e = CHR ''u'' then
               (case getu4 (c # cs) of
                  None \<Rightarrow> []
                | Some rr \<Rightarrow>
                    if 0xD800 \<le> rr \<and> rr < 0xE000 then
                      (case getu4 (drop 4 cs') of
                         None \<Rightarrow> replacement_char @ unquote (drop 4 cs')
                       | Some rr1 \<Rightarrow>
                           if rr < 0xDC00 \<and> 0xDC00 \<le> rr1 \<and> rr1 < 0xE000
                           then encode_rune ((rr - 0xD800) * 1024 + (rr1 - 0xDC00) + 0x10000)
                                  @ unquote (drop 10 cs')
                           else replacement_char @ unquote (drop 4 cs'))
                    else encode_rune rr @ unquote (drop 4 cs'))
             else escape_char e # unquote cs')
      else if byte c < 0x80 then c # unquote cs
      else if utf8_len (c # cs) = 0 then replacement_char @ unquote cs
      else take (utf8_len (c # cs)) (c # cs) @ unquote (drop (utf8_len (c # cs)) (c # cs)))"
  by pat_completeness auto
termination
  by (relation "measure length") (auto simp: less_Suc_eq_le)

text \<open>
  Tokens. The lexer stops at the first byte that starts no token and marks the place
  with \<open>TBad\<close>; since the decoder stops after the first value, what the lexer finds
  after that value is not an error of the decoder.
\<close>

datatype token =
  TOpenObj | TCloseObj | TOpenArr | TCloseArr | TColon | TComma | TLit json | TBad

function lex :: "string \<Rightarrow> token list" where
  "lex [] = []"
| "lex (c # cs) =
     (if isSpace c then lex cs
      else if c = CHR ''{'' then TOpenObj # lex cs
      else if c = CHR ''}'' then TCloseObj # lex cs
      else if c = CHR ''['' then TOpenArr # lex cs
      else if c = CHR '']'' then TCloseArr # lex cs
      else if c = CHR '':'' then TColon # lex cs
      else if c = CHR '','' then TComma # lex cs
      else if c = CHR 0x22 then
        (case string_lit cs of
           None \<Rightarrow> [TBad]
         | Some raw \<Rightarrow> TLit (JString (unquote raw)) # lex (drop (Suc (length raw)) cs))
      else if take 4 (c # cs) = ''true'' then TLit (JBool True) # lex (drop 3 cs)
      else if take 5 (c # cs) = ''false'' then TLit (JBool False) # lex (drop 4 cs)
      else if take 4 (c # cs) = ''null'' then TLit JNull # lex (drop 3 cs)
      else
        (case number_lit (c # cs) of
           None \<Rightarrow> [TBad]
         | Some txt \<Rightarrow> TLit (JNumber txt) # lex (drop (length txt - 1) cs)))"
  by pat_completeness auto
termination
  by (relation "measure length") (auto simp: less_Suc_eq_le)

subsection \<open>The first value of the stream\<close>

text \<open>
  The scanner is a pushdown automaton: it expects a value, a key, a colon, or a comma or
  closing bracket, and keeps one frame per open array or object (at most
  \<open>maxNestingDepth\<close> of them). A comma must be followed by a value or a key; only the
  bracket right after an opening bracket may close an empty array or object. \<open>run\<close> ends
  with the first complete value and the tokens left after it.
\<close>

datatype frame =
  FArray "json list" | FObject "(string \<times> json) list" | FKey "(string \<times> json) list" string

datatype expect = EValue bool | EKey bool | EColon | ECommaOrClose

datatype pstep = Continue expect "frame list" | Done json | Error

definition maxNestingDepth :: nat where
  "maxNestingDepth = 10000"

definition complete :: "json \<Rightarrow> frame list \<Rightarrow> pstep" where
  "complete v st =
     (case st of
        [] \<Rightarrow> Done v
      | FArray xs # st' \<Rightarrow> Continue ECommaOrClose (FArray (xs @ [v]) # st')
      | FKey ms k # st' \<Rightarrow> Continue ECommaOrClose (FObject (ms @ [(k, v)]) # st')
      | FObject ms # st' \<Rightarrow> Error)"

definition step :: "expect \<Rightarrow> frame list \<Rightarrow> token \<Rightarrow> pstep" where
  "step e st t =
     (case e of
        EValue may_close \<Rightarrow>
          (case t of
             TLit v \<Rightarrow> complete v st
           | TOpenArr \<Rightarrow>
               if maxNestingDepth \<le> length st then Error
               else Continue (EValue True) (FArray [] # st)
           | TOpenObj \<Rightarrow>
               if maxNestingDepth \<le> length st then Error
               else Continue (EKey True) (FObject [] # st)
           | TCloseArr \<Rightarrow>
               (case st of
                  FArray xs # st' \<Rightarrow> if may_close then complete (JArray xs) st' else Error
                | _ \<Rightarrow> Error)
           | _ \<Rightarrow> Error)
      | EKey may_close \<Rightarrow>
          (case st of
             FObject ms # st' \<Rightarrow>
               (case t of
                  TLit (JString k) \<Rightarrow> Continue EColon (FKey ms k # st')
                | TCloseObj \<Rightarrow> if may_close then complete (JObject ms) st' else Error
                | _ \<Rightarrow> Error)
           | _ \<Rightarrow> Error)
      | EColon \<Rightarrow> (case t of TColon \<Rightarrow> Continue (EValue False) st | _ \<Rightarrow> Error)
      | ECommaOrClose \<Rightarrow>
          (case st of
             FArray xs # st' \<Rightarrow>
               (case t of
                  TComma \<Rightarrow> Continue (EValue False) st
                | TCloseArr \<Rightarrow> complete (JArray xs) st'
                | _ \<Rightarrow> Error)
           | FObject ms # st' \<Rightarrow>
               (case t of
                  TComma \<Rightarrow> Continue (EKey False) st
                | TCloseObj \<Rightarrow> complete (JObject ms) st'
                | _ \<Rightarrow> Error)
           | _ \<Rightarrow> Error))"

fun run :: "expect \<Rightarrow> frame list \<Rightarrow> token list \<Rightarrow> (json \<times> token list) option" where
  "run e st [] = None"
| "run e st (t # ts) =
     (case step e st t of
        Continue e' st' \<Rightarrow> run e' st' ts
      | Done v \<Rightarrow> Some (v, ts)
      | Error \<Rightarrow> None)"

text \<open>
  \<open>first_value\<close> is what \<open>Decode\<close> reads from a body. A body is a JSON text when it is
  one value with nothing but white space around it.
\<close>

definition first_value :: "string \<Rightarrow> (json \<times> token list) option" where
  "first_value body = run (EValue False) [] (lex body)"

definition json_text :: "string \<Rightarrow> bool" where
  "json_text body \<longleftrightarrow> (case first_value body of Some (v, ts) \<Rightarrow> ts = [] | None \<Rightarrow> False)"

subsection \<open>Storing the value into the request struct\<close>

text \<open>
  A key of a JSON object names a struct field when it is the field's name (the \<open>json\<close>
  tag) or equals it after folding. Folding maps ASCII letters to upper case; the only
  runes outside ASCII that fold to an ASCII letter are \<open>U+017F\<close> (to \<open>S\<close>) and
  \<open>U+212A\<close> (to \<open>K\<close>). For every other rune outside ASCII the library writes the
  UTF-8 of the folded rune, which has no ASCII byte; its bytes are kept here, which
  decides the comparison with the folded name of a field, an ASCII string, the same way.
\<close>

definition upper :: "char \<Rightarrow> char" where
  "upper c = (if 97 \<le> byte c \<and> byte c \<le> 122 then char_of (byte c - 32) else c)"

function foldName :: "string \<Rightarrow> string" where
  "foldName [] = []"
| "foldName (c # cs) =
     (if byte c < 0x80 then upper c # foldName cs
      else if c = CHR 0xC5 \<and> take 1 cs = [CHR 0xBF] then CHR ''S'' # foldName (drop 1 cs)
      else if c = CHR 0xE2 \<and> take 2 cs = [CHR 0x84, CHR 0xAA]
      then CHR ''K'' # foldName (drop 2 cs)
      else c # foldName cs)"
  by pat_completeness auto
termination
  by (relation "measure length") (auto simp: less_Suc_eq_le)

definition matches_field :: "string \<Rightarrow> string \<Rightarrow> bool" where
  "matches_field name key \<longleftrightarrow> key = name \<or> foldName key = foldName name"

text \<open>
  A slice is its backing array, as long as its capacity, and its length. Storing a JSON
  array into a slice writes element \<open>i\<close> into position \<open>i\<close>: when \<open>i\<close> reaches the capacity
  the slice grows (to the capacity \<open>growcap\<close> gives, a choice of the runtime, and to at
  least one more element; the new positions hold the empty string), and when \<open>i\<close> reaches
  the length the length becomes \<open>i + 1\<close>. A string is stored, \<open>null\<close> leaves the position
  as it is, and any other value is a type error. Afterwards the slice is cut to the
  number of elements, and an empty array gives a fresh empty slice. \<open>null\<close> for the
  slice itself sets it to nil. A string field takes a string, is left alone by
  \<open>null\<close>, and any other value is a type error.
\<close>

type_synonym slice = "string list \<times> nat"

definition slice_elems :: "slice \<Rightarrow> string list" where
  "slice_elems sl = take (snd sl) (fst sl)"

fun store_elems ::
  "(nat \<Rightarrow> nat) \<Rightarrow> json list \<Rightarrow> nat \<Rightarrow> string list \<Rightarrow> nat \<Rightarrow> slice option" where
  "store_elems growcap [] i b n = Some (b, n)"
| "store_elems growcap (e # es) i b n =
     (let b1 = (if length b \<le> i
                then b @ replicate (max (growcap (length b)) (Suc i) - length b) []
                else b);
          n1 = (if n \<le> i then Suc i else n)
      in case e of
           JString s \<Rightarrow> store_elems growcap es (Suc i) (b1[i := s]) n1
         | JNull \<Rightarrow> store_elems growcap es (Suc i) b1 n1
         | _ \<Rightarrow> None)"

definition decode_slice :: "(nat \<Rightarrow> nat) \<Rightarrow> json \<Rightarrow> slice \<Rightarrow> slice option" where
  "decode_slice growcap v sl =
     (case v of
        JNull \<Rightarrow> Some ([], 0)
      | JArray es \<Rightarrow>
          (case store_elems growcap es 0 (fst sl) (snd sl) of
             None \<Rightarrow> None
           | Some (b, n) \<Rightarrow> if es = [] then Some ([], 0) else Some (b, min n (length es)))
      | _ \<Rightarrow> None)"

definition decode_string :: "json \<Rightarrow> string \<Rightarrow> string option" where
  "decode_string v old = (case v of JString s \<Rightarrow> Some s | JNull \<Rightarrow> Some old | _ \<Rightarrow> None)"

text \<open>
  The members of the object are stored in the order they appear; a member that names
  no field is skipped. The decoder goes on after a type error and reports it at the end:
  the answer is the error in any case, so the model stops at the first one. A body whose
  first value is \<open>null\<close> leaves the struct as it was, the zero value, without error;
  any other value that is not an object is a type error. The text of the error is not
  modelled: the handlers do not look at it.
\<close>

fun unmarshal_SMSRequest ::
  "(nat \<Rightarrow> nat) \<Rightarrow> (string \<times> json) list \<Rightarrow> slice \<Rightarrow> string \<Rightarrow> (slice \<times> string) option" where
  "unmarshal_SMSRequest growcap [] sl msg = Some (sl, msg)"
| "unmarshal_SMSRequest growcap ((k, v) # ms) sl msg =
     (if matches_field ''to'' k then
        (case decode_slice growcap v sl of
           None \<Rightarrow> None
         | Some sl' \<Rightarrow> unmarshal_SMSRequest growcap ms sl' msg)
      else if matches_field ''message'' k then
        (case decode_string v msg of
           None \<Rightarrow> None
         | Some msg' \<Rightarrow> unmarshal_SMSRequest growcap ms sl msg')
      else unmarshal_SMSRequest growcap ms sl msg)"

definition decode_SMSRequest :: "(nat \<Rightarrow> nat) \<Rightarrow> string \<Rightarrow> string + SMSRequest" where
  "decode_SMSRequest growcap body =
     (case first_value body of
        None \<Rightarrow> Inl ''invalid JSON''
      | Some (v, ts) \<Rightarrow>
          (case v of
             JObject ms \<Rightarrow>
               (case unmarshal_SMSRequest growcap ms ([], 0) [] of
                  None \<Rightarrow> Inl ''cannot unmarshal''
                | Some (sl, msg) \<Rightarrow> Inr \<lparr>To = slice_elems sl, Message = msg\<rparr>)
           | JNull \<Rightarrow> Inr \<lparr>To = [], Message = []\<rparr>
           | _ \<Rightarrow> Inl ''cannot unmarshal''))"

fun unmarshal_SingleRequest ::
  "(string \<times> json) list \<Rightarrow> string \<Rightarrow> string \<Rightarrow> (string \<times> string) option" where
  "unmarshal_SingleRequest [] to msg = Some (to, msg)"
| "unmarshal_SingleRequest ((k, v) # ms) to msg =
     (if matches_field ''to'' k then
        (case decode_string v to of
           None \<Rightarrow> None
         | Some to' \<Rightarrow> unmarshal_SingleRequest ms to' msg)
      else if matches_field ''message'' k then
        (case decode_string v msg of
           None \<Rightarrow> None
         | Some msg' \<Rightarrow> unmarshal_SingleRequest ms to msg')
      else unmarshal_SingleRequest ms to msg)"

definition decode_SingleRequest :: "string \<Rightarrow> string + SingleRequest" where
  "decode_SingleRequest body =
     (case first_value body of
        None \<Rightarrow> Inl ''invalid JSON''
      | Some (v, ts) \<Rightarrow>
          (case v of
             JObject ms \<Rightarrow>
               (case unmarshal_SingleRequest ms [] [] of
                  None \<Rightarrow> Inl ''cannot unmarshal''
                | Some (to, msg) \<Rightarrow> Inr \<lparr>sTo = to, sMessage = msg\<rparr>)
           | JNull \<Rightarrow> Inr \<lparr>sTo = [], sMessage = []\<rparr>
           | _ \<Rightarrow> Inl ''cannot unmarshal''))"

text \<open>
  A growth of capacities for the concrete inputs: 1, 2, 4, 8, and so on.
\<close>

definition demo_growcap :: "nat \<Rightarrow> nat" where
  "demo_growcap c = (if c = 0 then 1 else 2 * c)"

section \<open>Proofs of the invariants\<close>

subsection \<open>Counting goroutines under an update of one of them\<close>

lemma workers_at_update:
  "i < length ws \<Longrightarrow>
   workers_at P (ws[i := w]) + (if P (pc (ws ! i)) then 1 else 0) = workers_at P ws + (if P (pc w) then 1 else 0)"
  unfolding workers_at_def
proof (induction ws arbitrary: i)
  case Nil then show ?case by simp
next
  case (Cons x xs)
  show ?case
  proof (cases i)
    case 0 then show ?thesis by simp
  next
    case (Suc j)
    with Cons.prems have "j < length xs" by simp
    from Cons.IH[OF this] Suc show ?thesis by simp
  qed
qed

lemma workers_at_snoc: "workers_at P (ws @ [w]) = workers_at P ws + (if P (pc w) then 1 else 0)"
  by (simp add: workers_at_def)

lemma mset_filter_update:
  "i < length ws \<Longrightarrow>
   mset (map f (filter Q (ws[i := w]))) + (if Q (ws ! i) then {#f (ws ! i)#} else {#})
     = mset (map f (filter Q ws)) + (if Q w then {#f w#} else {#})"
proof (induction ws arbitrary: i)
  case Nil then show ?case by simp
next
  case (Cons x xs)
  show ?case
  proof (cases i)
    case 0 then show ?thesis by simp
  next
    case (Suc j)
    with Cons.prems have "j < length xs" by simp
    from Cons.IH[OF this] Suc show ?thesis by (auto split: if_splits)
  qed
qed

lemma workers_at_upd:
  "i < length ws \<Longrightarrow>
   workers_at P (ws[i := w]) = workers_at P ws + (if P (pc w) then 1 else 0) - (if P (pc (ws ! i)) then 1 else 0)"
  using workers_at_update[of i ws P w] by (simp split: if_splits)

lemma mset_filter_upd:
  "i < length ws \<Longrightarrow>
   mset (map f (filter Q (ws[i := w])))
     = mset (map f (filter Q ws)) + (if Q w then {#f w#} else {#}) - (if Q (ws ! i) then {#f (ws ! i)#} else {#})"
  using mset_filter_update[of i ws f Q w]
  by (metis add_diff_cancel_right')

lemma mset_filter_upd':
  "i < length ws \<Longrightarrow>
   image_mset f (filter_mset Q (mset (ws[i := w])))
     = image_mset f (filter_mset Q (mset ws)) + (if Q w then {#f w#} else {#})
         - (if Q (ws ! i) then {#f (ws ! i)#} else {#})"
  using mset_filter_upd[of i ws f Q w] by simp

subsection \<open>Every step keeps every invariant\<close>

lemma fire_cases:
  assumes "fire E message a s = Steps s'"
  obtains
    (spawn) r rest where "a = Main" "main s = MLoop (r # rest)"
      "s' = s\<lparr>main := MLoop rest, wg := wg s + 1,
                   workers := workers s @ [\<lparr>wto = r, pc = WStart, err = None\<rparr>]\<rparr>"
  | (return) "a = Main" "main s = MLoop []" "wg s = 0" "s' = s\<lparr>main := MReturned (response s)\<rparr>"
  | (worker) i where "a = Worker i" "i < length (workers s)"
      "worker_step E message i (workers s ! i) s = Steps s'"
  using assms
  by (cases a) (auto split: mpc.splits list.splits if_splits)

lemma inv_sem_step:
  assumes "inv_sem s" and "fire E message a s = Steps s'"
  shows "inv_sem s'"
  using assms(2)
proof (cases rule: fire_cases)
  case (spawn r rest)
  with assms(1) show ?thesis by (simp add: inv_sem_def workers_at_snoc)
next
  case return
  with assms(1) show ?thesis by (simp add: inv_sem_def)
next
  case (worker i)
  from worker assms(1) show ?thesis
    by (auto simp: inv_sem_def set_worker_def workers_at_upd split: wpc.splits if_splits)
qed

lemma inv_mu_step:
  assumes "inv_mu s" and "fire E message a s = Steps s'"
  shows "inv_mu s'"
  using assms(2)
proof (cases rule: fire_cases)
  case (spawn r rest)
  with assms(1) show ?thesis by (simp add: inv_mu_def workers_at_snoc)
next
  case return
  with assms(1) show ?thesis by (simp add: inv_mu_def)
next
  case (worker i)
  from worker assms(1) show ?thesis
    by (auto simp: inv_mu_def set_worker_def workers_at_upd split: wpc.splits if_splits)
qed

lemma inv_wg_step:
  assumes "inv_wg s" and "fire E message a s = Steps s'"
  shows "inv_wg s'"
  using assms(2)
proof (cases rule: fire_cases)
  case (spawn r rest)
  with assms(1) show ?thesis by (simp add: inv_wg_def workers_at_snoc)
next
  case return
  with assms(1) show ?thesis by (simp add: inv_wg_def)
next
  case (worker i)
  from worker assms(1) show ?thesis
    by (auto simp: inv_wg_def set_worker_def workers_at_upd split: wpc.splits if_splits)
qed

lemma inv_resp_step:
  assumes "inv_resp rs s" and "fire E message a s = Steps s'"
  shows "inv_resp rs s'"
  using assms(2)
proof (cases rule: fire_cases)
  case (spawn r rest)
  with assms(1) show ?thesis by (simp add: inv_resp_def sent_by_def failed_by_def)
next
  case return
  with assms(1) show ?thesis by (simp add: inv_resp_def)
next
  case (worker i)
  from worker assms(1) show ?thesis
    by (auto simp: inv_resp_def set_worker_def mset_filter_upd' sent_by_def failed_by_def
          record_outcome_def split: wpc.splits if_splits)
qed

lemma inv_calls_step:
  assumes "inv_calls E message s" and "fire E message a s = Steps s'"
  shows "inv_calls E message s'"
  using assms(2)
proof (cases rule: fire_cases)
  case (spawn r rest)
  with assms(1) show ?thesis by (simp add: inv_calls_def)
next
  case return
  with assms(1) show ?thesis by (simp add: inv_calls_def)
next
  case (worker i)
  from worker assms(1) show ?thesis
    by (auto simp: inv_calls_def set_worker_def mset_filter_upd' split: wpc.splits if_splits)
qed

lemma inv_err_step:
  assumes "inv_err E message s" and "fire E message a s = Steps s'"
  shows "inv_err E message s'"
  using assms(2)
proof (cases rule: fire_cases)
  case (spawn r rest)
  with assms(1) show ?thesis by (auto simp: inv_err_def nth_append)
next
  case return
  with assms(1) show ?thesis by (simp add: inv_err_def)
next
  case (worker i)
  from worker assms(1) show ?thesis
    by (auto simp: inv_err_def set_worker_def nth_list_update split: wpc.splits if_splits)
qed

lemma workers_at_zero: "workers_at P ws = 0 \<Longrightarrow> i < length ws \<Longrightarrow> \<not> P (pc (ws ! i))"
  by (auto simp: workers_at_def filter_empty_conv)

lemma map_wto_update: "i < length ws \<Longrightarrow> map wto (ws[i := (ws ! i)\<lparr>pc := p\<rparr>]) = map wto ws"
  "i < length ws \<Longrightarrow> map wto (ws[i := (ws ! i)\<lparr>pc := p, err := e\<rparr>]) = map wto ws"
  by (simp_all add: map_update list_update_same_conv)

lemma inv_main_step:
  assumes "inv_main rs s" and "inv_wg s" and "fire E message a s = Steps s'"
  shows "inv_main rs s'"
  using assms(3)
proof (cases rule: fire_cases)
  case (spawn r rest)
  with assms(1) show ?thesis by (simp add: inv_main_def)
next
  case return
  with assms(1) show ?thesis by (simp add: inv_main_def)
next
  case (worker i)
  show ?thesis
  proof (cases "main s")
    case (MLoop rest)
    with worker assms(1) show ?thesis
      by (auto simp: inv_main_def set_worker_def map_wto_update split: wpc.splits if_splits)
  next
    case (MReturned r)
    with assms(1,2) have "workers_at running (workers s) = 0" by (simp add: inv_main_def inv_wg_def)
    from workers_at_zero[OF this worker(2)] have "pc (workers s ! i) = WDone"
      by (cases "pc (workers s ! i)") simp_all
    with worker(3) show ?thesis by simp
  qed
qed

lemma inv_init: "inv E message rs (sendBulkSMS_init rs)"
  by (simp add: inv_def inv_sem_def inv_mu_def inv_wg_def inv_resp_def inv_calls_def
        inv_err_def inv_main_def sendBulkSMS_init_def workers_at_def)

lemma inv_step: "inv E message rs s \<Longrightarrow> fire E message a s = Steps s' \<Longrightarrow> inv E message rs s'"
  by (auto simp: inv_def
        intro: inv_sem_step inv_mu_step inv_wg_step inv_resp_step inv_calls_step inv_err_step
          inv_main_step)

lemma reach_inv: "reach E message rs s \<Longrightarrow> inv E message rs s"
  by (induction rule: reach.induct) (auto intro: inv_init inv_step)

subsection \<open>Runs are finite, never panic and never deadlock\<close>

text \<open>
  Every step uses up one unit of \<open>work\<close>. A state that the invariants allow has no actor
  whose step panics, and unless the caller has returned some actor can take a step: a
  goroutine that holds the mutex or a slot is never blocked, so the goroutines waiting
  for the mutex or for a slot cannot all wait for ever.
\<close>

lemma sum_list_update_nat:
  "i < length ws \<Longrightarrow>
   sum_list (map g (ws[i := w])) + g (ws ! i) = sum_list (map g ws) + (g w :: nat)"
proof (induction ws arbitrary: i)
  case Nil then show ?case by simp
next
  case (Cons x xs)
  show ?case
  proof (cases i)
    case 0 then show ?thesis by simp
  next
    case (Suc j)
    with Cons.prems have "j < length xs" by simp
    from Cons.IH[OF this] Suc show ?thesis by simp
  qed
qed

lemma work_step:
  assumes "fire E message a s = Steps s'"
  shows "work s = Suc (work s')"
  using assms
proof (cases rule: fire_cases)
  case (spawn r rest)
  then show ?thesis by (simp add: work_def)
next
  case return
  then show ?thesis by (simp add: work_def)
next
  case (worker i)
  have upd: "\<And>w. sum_list (map (\<lambda>w. steps_left (pc w)) ((workers s)[i := w])) + steps_left (pc (workers s ! i))
     = sum_list (map (\<lambda>w. steps_left (pc w)) (workers s)) + steps_left (pc w)"
    using sum_list_update_nat[OF worker(2), of "\<lambda>w. steps_left (pc w)"] by simp
  from worker(3) show ?thesis
  proof (cases "pc (workers s ! i)")
    case WStart
    with worker(3) upd[of "(workers s ! i)\<lparr>pc := WAcquired\<rparr>"] show ?thesis
      by (auto simp: work_def set_worker_def split: if_splits)
  next
    case WAcquired
    with worker(3) upd[of "(workers s ! i)\<lparr>pc := WSending\<rparr>"] show ?thesis
      by (auto simp: work_def set_worker_def split: if_splits)
  next
    case WSending
    with worker(3) upd[of "(workers s ! i)\<lparr>pc := WCalled, err := sendSMS_err E
                               (CreateMessage E i (sendSMS_params E (wto (workers s ! i)) message))\<rparr>"] show ?thesis
      by (auto simp: work_def set_worker_def split: if_splits)
  next
    case WCalled
    with worker(3) upd[of "(workers s ! i)\<lparr>pc := WLocked\<rparr>"] show ?thesis
      by (auto simp: work_def set_worker_def split: if_splits)
  next
    case WLocked
    with worker(3) upd[of "(workers s ! i)\<lparr>pc := WAppended\<rparr>"] show ?thesis
      by (auto simp: work_def set_worker_def split: if_splits)
  next
    case WAppended
    with worker(3) upd[of "(workers s ! i)\<lparr>pc := WUnlocked\<rparr>"] show ?thesis
      by (auto simp: work_def set_worker_def split: if_splits)
  next
    case WUnlocked
    with worker(3) upd[of "(workers s ! i)\<lparr>pc := WReleased\<rparr>"] show ?thesis
      by (auto simp: work_def set_worker_def split: if_splits)
  next
    case WReleased
    with worker(3) upd[of "(workers s ! i)\<lparr>pc := WDone\<rparr>"] show ?thesis
      by (auto simp: work_def set_worker_def split: if_splits)
  next
    case WDone
    with worker(3) show ?thesis by simp
  qed
qed

lemma exec_work:
  "exec E message sched s = Some s' \<Longrightarrow> work s = length sched + work s'"
proof (induction sched arbitrary: s)
  case Nil then show ?case by simp
next
  case (Cons a sched)
  then obtain s1 where f: "fire E message a s = Steps s1" and e: "exec E message sched s1 = Some s'"
    by (auto split: outcome.splits)
  from work_step[OF f] Cons.IH[OF e] show ?case by simp
qed

lemma exec_reach:
  "reach E message rs s \<Longrightarrow> exec E message sched s = Some s' \<Longrightarrow> reach E message rs s'"
proof (induction sched arbitrary: s)
  case Nil then show ?case by simp
next
  case (Cons a sched)
  then obtain s1 where f: "fire E message a s = Steps s1" and e: "exec E message sched s1 = Some s'"
    by (auto split: outcome.splits)
  from reach_step[OF Cons.prems(1) f] e Cons.IH show ?case by blast
qed

lemma exec_append:
  "exec E message (p @ q) s = (case exec E message p s of Some s' \<Rightarrow> exec E message q s' | None \<Rightarrow> None)"
  by (induction p arbitrary: s) (auto split: outcome.splits)

lemma workers_at_pos: "i < length ws \<Longrightarrow> P (pc (ws ! i)) \<Longrightarrow> 0 < workers_at P ws"
  by (auto simp: workers_at_def filter_empty_conv)

lemma workers_at_pos_ex: "0 < workers_at P ws \<Longrightarrow> \<exists>i < length ws. P (pc (ws ! i))"
  by (auto simp: workers_at_def filter_empty_conv in_set_conv_nth)

lemma no_panic:
  assumes "inv E message rs s"
  shows "fire E message a s \<noteq> Panics"
proof (cases a)
  case Main
  then show ?thesis by (auto split: mpc.splits list.splits)
next
  case (Worker i)
  show ?thesis
  proof (cases "i < length (workers s)")
    case False
    with Worker show ?thesis by simp
  next
    case True
    from assms have m: "workers_at holds_mutex (workers s) = (if mu s then 1 else 0)"
      and w: "wg s = workers_at running (workers s)"
      by (simp_all add: inv_def inv_mu_def inv_wg_def)
    have "pc (workers s ! i) = WAppended \<Longrightarrow> mu s"
      using workers_at_pos[OF True, of holds_mutex] m by (auto split: if_splits)
    moreover have "pc (workers s ! i) = WReleased \<Longrightarrow> wg s \<noteq> 0"
      using workers_at_pos[OF True, of running] w by auto
    ultimately show ?thesis using Worker True
      by (auto split: wpc.splits)
  qed
qed

lemma worker_can_step:
  assumes "i < length (workers s)" and "worker_step E message i (workers s ! i) s = Steps s'"
  shows "can_step E message s"
  unfolding can_step_def using assms by (intro exI[of _ "Worker i"] exI[of _ s']) simp

lemma progress:
  assumes I: "inv E message rs s" and M: "main s = MLoop rest"
  shows "can_step E message s"
proof (cases rest)
  case (Cons r rest')
  with M have "fire E message Main s = Steps (s\<lparr>main := MLoop rest', wg := wg s + 1,
                   workers := workers s @ [\<lparr>wto = r, pc = WStart, err = None\<rparr>]\<rparr>)" by simp
  then show ?thesis unfolding can_step_def by blast
next
  case Nil
  show ?thesis
  proof (cases "wg s = 0")
    case True
    with M Nil have "fire E message Main s = Steps (s\<lparr>main := MReturned (response s)\<rparr>)" by simp
    then show ?thesis unfolding can_step_def by blast
  next
    case False
    from I have sem: "semaphore s = workers_at holds_slot (workers s)"
      and m: "workers_at holds_mutex (workers s) = (if mu s then 1 else 0)"
      and w: "wg s = workers_at running (workers s)"
      by (simp_all add: inv_def inv_sem_def inv_mu_def inv_wg_def)
    let ?ws = "workers s"
    from False w workers_at_pos_ex[of running ?ws] obtain i where i: "i < length ?ws" "running (pc (?ws ! i))"
      by auto
    define free where "free p \<longleftrightarrow> p \<noteq> WStart \<and> p \<noteq> WCalled \<and> p \<noteq> WDone" for p
    show ?thesis
    proof (cases "\<exists>j < length ?ws. free (pc (?ws ! j))")
      case True
      then obtain j where j: "j < length ?ws" "free (pc (?ws ! j))" by blast
      have "pc (?ws ! j) = WAppended \<Longrightarrow> mu s"
        using workers_at_pos[OF j(1), of holds_mutex] m by (auto split: if_splits)
      moreover have "pc (?ws ! j) = WReleased \<Longrightarrow> wg s \<noteq> 0"
        using workers_at_pos[OF j(1), of running] w by auto
      moreover have "pc (?ws ! j) = WUnlocked \<Longrightarrow> semaphore s \<noteq> 0"
        using workers_at_pos[OF j(1), of holds_slot] sem by auto
      ultimately have "\<exists>s'. worker_step E message j (?ws ! j) s = Steps s'"
        using j(2) by (cases "pc (?ws ! j)") (auto simp: free_def)
      with j(1) show ?thesis using worker_can_step by blast
    next
      case nofree: False
      show ?thesis
      proof (cases "\<exists>j < length ?ws. pc (?ws ! j) = WCalled")
        case True
        then obtain j where j: "j < length ?ws" "pc (?ws ! j) = WCalled" by blast
        have "\<not> mu s"
        proof
          assume "mu s"
          with m have "0 < workers_at holds_mutex ?ws" by simp
          from workers_at_pos_ex[OF this] obtain k where "k < length ?ws" "holds_mutex (pc (?ws ! k))" by blast
          with nofree show False by (cases "pc (?ws ! k)") (auto simp: free_def)
        qed
        with j have "\<exists>s'. worker_step E message j (?ws ! j) s = Steps s'" by simp
        with j(1) show ?thesis using worker_can_step by blast
      next
        case False
        with nofree i have st: "pc (?ws ! i) = WStart"
          by (cases "pc (?ws ! i)") (auto simp: free_def)
        have "semaphore s = 0"
        proof (rule ccontr)
          assume "semaphore s \<noteq> 0"
          with sem have "0 < workers_at holds_slot ?ws" by simp
          from workers_at_pos_ex[OF this] obtain k where "k < length ?ws" "holds_slot (pc (?ws ! k))" by blast
          with nofree False show False by (cases "pc (?ws ! k)") (auto simp: free_def)
        qed
        with st have "\<exists>s'. worker_step E message i (?ws ! i) s = Steps s'"
          by (simp add: semaphore_cap_def)
        with i(1) show ?thesis using worker_can_step by blast
      qed
    qed
  qed
qed

lemma completes:
  assumes "inv E message rs s"
  shows "\<exists>sched s' r. exec E message sched s = Some s' \<and> main s' = MReturned r"
  using assms
proof (induction "work s" arbitrary: s rule: less_induct)
  case less
  show ?case
  proof (cases "main s")
    case (MReturned r)
    then have "exec E message [] s = Some s \<and> main s = MReturned r" by simp
    then show ?thesis by blast
  next
    case (MLoop rest)
    from progress[OF less.prems MLoop] obtain a s1 where f: "fire E message a s = Steps s1"
      unfolding can_step_def by blast
    from work_step[OF f] have "work s1 < work s" by simp
    from less.hyps[OF this inv_step[OF less.prems f]]
    obtain sched s' r where "exec E message sched s1 = Some s'" "main s' = MReturned r" by blast
    with f have "exec E message (a # sched) s = Some s' \<and> main s' = MReturned r" by simp
    then show ?thesis by blast
  qed
qed

subsection \<open>The state in which the caller has returned\<close>

lemma exec_inv:
  "exec E message sched (sendBulkSMS_init rs) = Some s \<Longrightarrow> inv E message rs s"
  using exec_reach[OF reach_init] reach_inv by blast

lemma sendBulkSMS_Some:
  "sendBulkSMS E sched rs message = Some (r, log) \<longleftrightarrow>
     (\<exists>s. exec E message sched (sendBulkSMS_init rs) = Some s \<and> main s = MReturned r \<and> calls s = log)"
  by (auto simp: sendBulkSMS_def split: option.splits mpc.splits)

lemma returned_done:
  assumes "inv E message rs s" and "main s = MReturned r"
  shows "r = response s" and "map wto (workers s) = rs" and "\<forall>w \<in> set (workers s). pc w = WDone"
proof -
  from assms show "r = response s" "map wto (workers s) = rs"
    by (simp_all add: inv_def inv_main_def)
  from assms have "workers_at running (workers s) = 0" by (simp add: inv_def inv_main_def inv_wg_def)
  then have "\<forall>w \<in> set (workers s). \<not> running (pc w)"
    by (auto simp: workers_at_def filter_empty_conv)
  then show "\<forall>w \<in> set (workers s). pc w = WDone"
    by (metis running.elims(3))
qed

lemma filter_nth_conv:
  "(\<forall>i < length ws. Q (ws ! i) = R i) \<Longrightarrow>
   map f (filter Q ws) = map (\<lambda>i. f (ws ! i)) (filter R [0..<length ws])"
proof (induction ws rule: rev_induct)
  case Nil then show ?case by simp
next
  case (snoc x xs)
  have a: "\<forall>i < length xs. Q (xs ! i) = R i"
  proof (intro allI impI)
    fix i assume "i < length xs"
    with snoc.prems[rule_format, of i] show "Q (xs ! i) = R i" by (simp add: nth_append)
  qed
  have b: "Q x = R (length xs)" using snoc.prems[rule_format, of "length xs"] by simp
  have c: "map (\<lambda>i. f ((xs @ [x]) ! i)) (filter R [0..<length xs]) = map (\<lambda>i. f (xs ! i)) (filter R [0..<length xs])"
    by (rule map_cong) (auto simp: nth_append)
  from snoc.IH[OF a] b c show ?case by simp
qed

lemma sendSMS_err_None [simp]: "sendSMS_err E x = None \<longleftrightarrow> x = None"
  by (simp add: sendSMS_err_def split: option.splits)

lemma returned_sent_failed:
  assumes I: "inv E message rs s" and M: "main s = MReturned r"
  shows "mset (Sent r) = mset (map ((!) rs) (filter (delivered E message rs) [0..<length rs]))"
    and "mset (Failed r) = mset (map ((!) rs) (filter (\<lambda>i. \<not> delivered E message rs i) [0..<length rs]))"
proof -
  let ?ws = "workers s"
  note d = returned_done[OF I M]
  from d(2) have len: "length ?ws = length rs" by auto
  from d(2) have nth: "\<And>i. i < length rs \<Longrightarrow> wto (?ws ! i) = rs ! i"
    by (metis len nth_map)
  from I have e: "\<And>i. i < length ?ws \<Longrightarrow> err (?ws ! i) =
          (if has_result (pc (?ws ! i))
           then sendSMS_err E (CreateMessage E i (sendSMS_params E (wto (?ws ! i)) message))
           else None)" by (simp add: inv_def inv_err_def)
  have pcd: "\<And>i. i < length ?ws \<Longrightarrow> pc (?ws ! i) = WDone" using d(3) by simp
  have s: "\<forall>i < length ?ws. sent_by (?ws ! i) = delivered E message rs i"
    using e pcd nth len by (simp add: sent_by_def delivered_def)
  have f: "\<forall>i < length ?ws. failed_by (?ws ! i) = (\<not> delivered E message rs i)"
    using e pcd nth len by (simp add: failed_by_def delivered_def)
  have m: "\<And>R. map (\<lambda>i. wto (?ws ! i)) (filter R [0..<length rs]) = map ((!) rs) (filter R [0..<length rs])"
    by (rule map_cong) (auto simp: nth)
  from I d(1) have "mset (Sent r) = mset (map wto (filter sent_by ?ws))"
    and "mset (Failed r) = mset (map wto (filter failed_by ?ws))"
    by (simp_all add: inv_def inv_resp_def)
  then show "mset (Sent r) = mset (map ((!) rs) (filter (delivered E message rs) [0..<length rs]))"
    and "mset (Failed r) = mset (map ((!) rs) (filter (\<lambda>i. \<not> delivered E message rs i) [0..<length rs]))"
    using filter_nth_conv[OF s, of wto] filter_nth_conv[OF f, of wto] m len by simp_all
qed

lemma mset_map_filter_partition:
  "mset (map f (filter P xs)) + mset (map f (filter (\<lambda>x. \<not> P x) xs)) = mset (map f xs)"
  by (induction xs) auto

lemma returned_partition:
  assumes I: "inv E message rs s" and M: "main s = MReturned r"
  shows "mset (Sent r) + mset (Failed r) = mset rs"
proof -
  have "mset (map ((!) rs) (filter (delivered E message rs) [0..<length rs]))
      + mset (map ((!) rs) (filter (\<lambda>i. \<not> delivered E message rs i) [0..<length rs]))
      = mset (map ((!) rs) [0..<length rs])"
    by (rule mset_map_filter_partition)
  also have "\<dots> = mset rs" by (simp add: map_nth)
  finally show ?thesis using returned_sent_failed[OF I M] by simp
qed

lemma returned_calls:
  assumes I: "inv E message rs s" and M: "main s = MReturned r"
  shows "mset (calls s) = mset (map (\<lambda>t. sendSMS_params E t message) rs)"
proof -
  note d = returned_done[OF I M]
  have "filter (\<lambda>w. has_called (pc w)) (workers s) = workers s"
    using d(3) by (simp add: filter_id_conv)
  with I have "mset (calls s) = mset (map (\<lambda>w. sendSMS_params E (wto w) message) (workers s))"
    by (simp add: inv_def inv_calls_def)
  also have "map (\<lambda>w. sendSMS_params E (wto w) message) (workers s)
     = map (\<lambda>t. sendSMS_params E t message) (map wto (workers s))" by simp
  finally show ?thesis using d(2) by simp
qed

lemma workers_at_mono:
  "(\<And>p. P p \<Longrightarrow> Q p) \<Longrightarrow> length (filter (\<lambda>w. P (pc w)) ws) \<le> workers_at Q ws"
  unfolding workers_at_def
  by (induction ws) auto

lemma filter_by_index:
  "map ((!) xs) (filter (\<lambda>i. P (xs ! i)) [0..<length xs]) = filter P xs"
  using filter_nth_conv[of xs P "\<lambda>i. P (xs ! i)" "\<lambda>x. x"] by simp

subsection \<open>The empty request, complete runs, and the handlers\<close>

lemma SMSResponse_eqI:
  "Sent r = a \<Longrightarrow> Failed r = b \<Longrightarrow> Total r = c \<Longrightarrow> r = \<lparr>Sent = a, Failed = b, Total = c\<rparr>"
  by (cases r) simp

lemma exec_empty:
  assumes "exec E message sched (sendBulkSMS_init []) = Some s"
  shows "workers s = []" and "calls s = []"
    and "response s = \<lparr>Sent = [], Failed = [], Total = 0\<rparr>"
proof -
  note I = exec_inv[OF assms]
  from I show w: "workers s = []"
    by (auto simp: inv_def inv_main_def split: mpc.splits)
  from I w show "calls s = []" by (simp add: inv_def inv_calls_def)
  from I w show "response s = \<lparr>Sent = [], Failed = [], Total = 0\<rparr>"
    by (intro SMSResponse_eqI) (simp_all add: inv_def inv_resp_def)
qed

lemma sendBulkSMS_empty_run:
  "sendBulkSMS E [Main] [] message = Some (\<lparr>Sent = [], Failed = [], Total = 0\<rparr>, [])"
  by (simp add: sendBulkSMS_def sendBulkSMS_init_def)

lemma sendBulkSMS_empty_only:
  assumes "sendBulkSMS E sched [] message = Some (r, log)"
  shows "r = \<lparr>Sent = [], Failed = [], Total = 0\<rparr>" and "log = []"
proof -
  from assms obtain s where e: "exec E message sched (sendBulkSMS_init []) = Some s"
    and m: "main s = MReturned r" and c: "calls s = log"
    by (auto simp: sendBulkSMS_Some)
  from returned_done(1)[OF exec_inv[OF e] m] exec_empty(3)[OF e]
  show "r = \<lparr>Sent = [], Failed = [], Total = 0\<rparr>" by simp
  from exec_empty(2)[OF e] c show "log = []" by simp
qed

lemma work_init: "work (sendBulkSMS_init rs) = 1 + 9 * length rs"
  by (simp add: work_def sendBulkSMS_init_def)

lemma sendBulkSMS_completes:
  "\<exists>sched r log. sendBulkSMS E sched rs message = Some (r, log)"
proof -
  from completes[OF inv_init[of E message rs]]
  obtain sched s' r where "exec E message sched (sendBulkSMS_init rs) = Some s'" "main s' = MReturned r"
    by blast
  then have "sendBulkSMS E sched rs message = Some (r, calls s')"
    by (simp add: sendBulkSMS_def)
  then show ?thesis by blast
qed

lemma extend_to_return:
  assumes "exec E message sched (sendBulkSMS_init rs) = Some s"
  shows "\<exists>rest s' r. exec E message (sched @ rest) (sendBulkSMS_init rs) = Some s'
           \<and> main s' = MReturned r"
proof -
  from completes[OF exec_inv[OF assms]]
  obtain rest s' r where "exec E message rest s = Some s'" "main s' = MReturned r" by blast
  with assms have "exec E message (sched @ rest) (sendBulkSMS_init rs) = Some s' \<and> main s' = MReturned r"
    by (simp add: exec_append)
  then show ?thesis by blast
qed

lemma sendBulkSMSHandler_ok:
  assumes "method = MethodPost" and "decode body = Inr req"
  shows "sendBulkSMSHandler E decode sched method body = Some (resp, log) \<longleftrightarrow>
     (\<exists>r. sendBulkSMS E sched (To req) (Message req) = Some (r, log)
          \<and> resp = \<lparr>status = StatusOK, payload = BulkJSON r\<rparr>)"
  using assms by (auto simp: sendBulkSMSHandler_def split: option.splits)

subsection \<open>The two steps of a goroutine around the provider call are sendSMS\<close>

text \<open>
  The step that starts the provider call and the step in which it returns, taken
  together, do to the call log and to \<open>err\<close> what \<open>sendSMS\<close> does.
\<close>

lemma worker_call_is_sendSMS:
  assumes "i < length (workers s)" and "pc (workers s ! i) = WAcquired"
  shows "\<exists>s'. exec E message [Worker i, Worker i] s = Some s'
           \<and> pc (workers s' ! i) = WCalled
           \<and> (err (workers s' ! i), calls s')
               = sendSMS E i (wto (workers s ! i)) message (calls s)"
  using assms by (simp add: set_worker_def sendSMS_def Let_def)

lemma extend_to_result:
  assumes "exec E message sched (sendBulkSMS_init rs) = Some s"
  shows "\<exists>rest r log. sendBulkSMS E (sched @ rest) rs message = Some (r, log)"
proof -
  from extend_to_return[OF assms]
  obtain rest s' r where "exec E message (sched @ rest) (sendBulkSMS_init rs) = Some s'"
    "main s' = MReturned r" by blast
  then have "sendBulkSMS E (sched @ rest) rs message = Some (r, calls s')"
    by (simp add: sendBulkSMS_def)
  then show ?thesis by blast
qed

subsection \<open>The decoder on bodies without a first value and without recipients\<close>

lemma decode_SMSRequest_no_value:
  "first_value body = None \<Longrightarrow> decode_SMSRequest growcap body = Inl ''invalid JSON''"
  by (simp add: decode_SMSRequest_def)

lemma decode_SingleRequest_no_value:
  "first_value body = None \<Longrightarrow> decode_SingleRequest body = Inl ''invalid JSON''"
  by (simp add: decode_SingleRequest_def)

lemma unmarshal_no_recipients:
  assumes "\<forall>(k, v) \<in> set ms.
      (matches_field ''to'' k \<longrightarrow> v = JNull)
      \<and> (matches_field ''message'' k \<longrightarrow> v = JNull \<or> (\<exists>s. v = JString s))"
  shows "\<exists>msg'. unmarshal_SMSRequest growcap ms ([], 0) msg = Some (([], 0), msg')"
  using assms
proof (induction ms arbitrary: msg)
  case Nil
  then show ?case by simp
next
  case (Cons m ms)
  obtain k v where m: "m = (k, v)" by (cases m)
  from Cons.prems have rest: "\<forall>(k, v) \<in> set ms.
      (matches_field ''to'' k \<longrightarrow> v = JNull)
      \<and> (matches_field ''message'' k \<longrightarrow> v = JNull \<or> (\<exists>s. v = JString s))" by simp
  from Cons.prems m have t: "matches_field ''to'' k \<Longrightarrow> v = JNull"
    and g: "matches_field ''message'' k \<Longrightarrow> v = JNull \<or> (\<exists>s. v = JString s)" by auto
  show ?case
  proof (cases "matches_field ''to'' k")
    case True
    with t m Cons.IH[OF rest, of msg] show ?thesis by (simp add: decode_slice_def)
  next
    case False
    show ?thesis
    proof (cases "matches_field ''message'' k")
      case True
      with g consider "v = JNull" | s where "v = JString s" by blast
      then show ?thesis
      proof cases
        case 1
        with False True m Cons.IH[OF rest, of msg] show ?thesis by (simp add: decode_string_def)
      next
        case 2
        with False True m Cons.IH[OF rest, of s] show ?thesis by (simp add: decode_string_def)
      qed
    next
      case nm: False
      with False m Cons.IH[OF rest, of msg] show ?thesis by simp
    qed
  qed
qed

lemma decode_no_recipients:
  assumes "first_value body = Some (JObject members, rest)"
    and "\<forall>(k, v) \<in> set members.
      (matches_field ''to'' k \<longrightarrow> v = JNull)
      \<and> (matches_field ''message'' k \<longrightarrow> v = JNull \<or> (\<exists>s. v = JString s))"
  shows "\<exists>msg. decode_SMSRequest growcap body = Inr \<lparr>To = [], Message = msg\<rparr>"
proof -
  from unmarshal_no_recipients[OF assms(2), of growcap "[]"]
  obtain msg' where "unmarshal_SMSRequest growcap members ([], 0) [] = Some (([], 0), msg')"
    by blast
  with assms(1) have "decode_SMSRequest growcap body = Inr \<lparr>To = [], Message = msg'\<rparr>"
    by (simp add: decode_SMSRequest_def slice_elems_def)
  then show ?thesis by blast
qed

section \<open>The claims\<close>

text \<open>
  C1. For every request and every provider, the response returned by the bulk
  dispatcher satisfies \<open>len(Sent) + len(Failed) == Total\<close>, and the caller never sees a
  partial result: in every interleaving, the state in which the caller has returned
  \<open>r\<close> has one goroutine per recipient, every one of them ended, \<open>r\<close> is the response as
  it stands, and no actor can take a further step that would change it.
\<close>

theorem dispatch_result_complete:
  assumes "exec E message sched (sendBulkSMS_init recipients) = Some s"
    and "main s = MReturned r"
  shows "int (length (Sent r)) + int (length (Failed r)) = Total r
       \<and> r = response s
       \<and> length (workers s) = length recipients
       \<and> (\<forall>w \<in> set (workers s). pc w = WDone)
       \<and> (\<forall>a. fire E message a s = NoStep)"
proof -
  note I = exec_inv[OF assms(1)]
  note d = returned_done[OF I assms(2)]
  have "size (mset (Sent r) + mset (Failed r)) = size (mset recipients)"
    using returned_partition[OF I assms(2)] by simp
  then have "length (Sent r) + length (Failed r) = length recipients" by simp
  moreover from I d(1) have "Total r = int (length recipients)" by (simp add: inv_def inv_resp_def)
  ultimately have 1: "int (length (Sent r)) + int (length (Failed r)) = Total r" by simp
  from d(2) have 2: "length (workers s) = length recipients" by auto
  have 3: "fire E message a s = NoStep" for a
  proof (cases a)
    case Main
    with assms(2) show ?thesis by simp
  next
    case (Worker i)
    with d(3) show ?thesis by (cases "i < length (workers s)") simp_all
  qed
  from 1 2 3 d(1,3) show ?thesis by blast
qed

theorem dispatch_result_complete_witness:
  "exec demo_twilio ''hi'' demo_sched (sendBulkSMS_init demo_recipients) = Some demo_final
   \<and> main demo_final = MReturned \<lparr>Sent = [''+3'', ''+1''], Failed = [''+2'', ''+2''], Total = 4\<rparr>
   \<and> int (length [''+3'', ''+1'']) + int (length [''+2'', ''+2'']) = (4::int)
   \<and> length (workers demo_final) = length demo_recipients
   \<and> map pc (workers demo_final) = [WDone, WDone, WDone, WDone]"
proof -
  have d: "map pc (workers demo_final) = [WDone, WDone, WDone, WDone]"
    by code_simp
  have e: "exec demo_twilio ''hi'' demo_sched (sendBulkSMS_init demo_recipients) = Some demo_final"
    by code_simp
  have m: "main demo_final = MReturned \<lparr>Sent = [''+3'', ''+1''], Failed = [''+2'', ''+2''], Total = 4\<rparr>"
    by code_simp
  from dispatch_result_complete[OF e m] e m d show ?thesis by simp
qed

text \<open>
  C2. In every state that any interleaving of any batch can reach, the goroutines
  whose provider call is in flight are among those holding a slot of the semaphore, the
  holders are exactly as many as the semaphore counts, and that count never exceeds 10.
  A goroutine that has recorded its outcome can always give its slot back, whatever the
  outcome was, and when the caller has returned every slot has been given back.
\<close>

theorem admission_gate_bound:
  assumes "exec E message sched (sendBulkSMS_init recipients) = Some s"
  shows "length (filter (\<lambda>w. pc w = WSending) (workers s))
           \<le> length (filter (\<lambda>w. holds_slot (pc w)) (workers s))
       \<and> length (filter (\<lambda>w. holds_slot (pc w)) (workers s)) = semaphore s
       \<and> semaphore s \<le> 10
       \<and> (\<forall>i < length (workers s). pc (workers s ! i) = WUnlocked \<longrightarrow>
            (\<exists>s'. fire E message (Worker i) s = Steps s' \<and> semaphore s' = semaphore s - 1))
       \<and> (\<forall>r. main s = MReturned r \<longrightarrow> semaphore s = 0)"
proof -
  note I = exec_inv[OF assms]
  from I have sem: "semaphore s = workers_at holds_slot (workers s)" "semaphore s \<le> semaphore_cap"
    by (simp_all add: inv_def inv_sem_def)
  have 1: "length (filter (\<lambda>w. pc w = WSending) (workers s)) \<le> workers_at holds_slot (workers s)"
    by (rule workers_at_mono[of "\<lambda>p. p = WSending"]) simp
  have 2: "semaphore s = 0" if "main s = MReturned r" for r
  proof -
    from returned_done(3)[OF I that] have "filter (\<lambda>w. holds_slot (pc w)) (workers s) = []"
      by (simp add: filter_empty_conv)
    with sem(1) show ?thesis by (simp add: workers_at_def)
  qed
  have 3: "\<exists>s'. fire E message (Worker i) s = Steps s' \<and> semaphore s' = semaphore s - 1"
    if "i < length (workers s)" "pc (workers s ! i) = WUnlocked" for i
  proof -
    from workers_at_pos[OF that(1), of holds_slot] that(2) sem(1) have "semaphore s \<noteq> 0" by simp
    with that show ?thesis by (simp add: set_worker_def)
  qed
  from 1 2 3 sem show ?thesis by (simp add: workers_at_def semaphore_cap_def)
qed

theorem admission_gate_bound_witness:
  "exec demo_twilio ''hi'' gate_sched (sendBulkSMS_init gate_recipients) = Some gate_state
   \<and> length (filter (\<lambda>w. pc w = WSending) (workers gate_state)) = 9
   \<and> length (filter (\<lambda>w. holds_slot (pc w)) (workers gate_state)) = 10
   \<and> semaphore gate_state = 10
   \<and> fire demo_twilio ''hi'' (Worker 10) gate_state = NoStep
   \<and> pc (workers gate_state ! 1) = WUnlocked
   \<and> err (workers gate_state ! 1) = Some ''error al enviar SMS: invalid number''
   \<and> (\<exists>s'. fire demo_twilio ''hi'' (Worker 1) gate_state = Steps s' \<and> semaphore s' = 9)"
proof -
  have e: "exec demo_twilio ''hi'' gate_sched (sendBulkSMS_init gate_recipients) = Some gate_state"
    by code_simp
  have a: "length (filter (\<lambda>w. pc w = WSending) (workers gate_state)) = 9"
    by code_simp
  have b: "semaphore gate_state = 10"
    by code_simp
  have c: "fire demo_twilio ''hi'' (Worker 10) gate_state = NoStep"
    by code_simp
  have d: "pc (workers gate_state ! 1) = WUnlocked"
    "err (workers gate_state ! 1) = Some ''error al enviar SMS: invalid number''"
    "1 < length (workers gate_state)"
    by code_simp+
  from admission_gate_bound[OF e] e a b c d show ?thesis by simp
qed

text \<open>
  C3. When the provider fails exactly for the occurrences of recipient \<open>X\<close> and
  succeeds for every other recipient, the dispatcher returns a response: a complete run
  exists and every run so far can be continued to the caller's return. Every response
  it returns has the occurrences of \<open>X\<close> in \<open>Failed\<close> and every other recipient in
  \<open>Sent\<close>, for every complete schedule, that is, in whatever order the goroutines run
  and finish.
\<close>

theorem one_failing_recipient:
  assumes "\<forall>i < length recipients. (\<not> delivered E message recipients i) = (recipients ! i = X)"
  shows "(\<exists>sched r log. sendBulkSMS E sched recipients message = Some (r, log))
       \<and> (\<forall>sched s. exec E message sched (sendBulkSMS_init recipients) = Some s \<longrightarrow>
            (\<exists>rest r log. sendBulkSMS E (sched @ rest) recipients message = Some (r, log)))
       \<and> (\<forall>sched r log. sendBulkSMS E sched recipients message = Some (r, log) \<longrightarrow>
            mset (Failed r) = mset (filter (\<lambda>t. t = X) recipients)
            \<and> mset (Sent r) = mset (filter (\<lambda>t. t \<noteq> X) recipients)
            \<and> (X \<in> set recipients \<longrightarrow> X \<in> set (Failed r))
            \<and> X \<notin> set (Sent r)
            \<and> (\<forall>t \<in> set recipients. t \<noteq> X \<longrightarrow> t \<in> set (Sent r) \<and> t \<notin> set (Failed r)))"
proof -
  have 1: "\<exists>sched r log. sendBulkSMS E sched recipients message = Some (r, log)"
    by (rule sendBulkSMS_completes)
  have 2: "\<exists>rest r log. sendBulkSMS E (sched @ rest) recipients message = Some (r, log)"
    if "exec E message sched (sendBulkSMS_init recipients) = Some s" for sched s
    using that by (rule extend_to_result)
  have 3: "mset (Failed r) = mset (filter (\<lambda>t. t = X) recipients)
            \<and> mset (Sent r) = mset (filter (\<lambda>t. t \<noteq> X) recipients)
            \<and> (X \<in> set recipients \<longrightarrow> X \<in> set (Failed r))
            \<and> X \<notin> set (Sent r)
            \<and> (\<forall>t \<in> set recipients. t \<noteq> X \<longrightarrow> t \<in> set (Sent r) \<and> t \<notin> set (Failed r))"
    if a: "sendBulkSMS E sched recipients message = Some (r, log)" for sched r log
  proof -
    from a obtain s where e: "exec E message sched (sendBulkSMS_init recipients) = Some s"
      and m: "main s = MReturned r"
      by (auto simp: sendBulkSMS_Some)
    note I = exec_inv[OF e]
    have f1: "filter (\<lambda>i. \<not> delivered E message recipients i) [0..<length recipients]
            = filter (\<lambda>i. recipients ! i = X) [0..<length recipients]"
      by (rule filter_cong) (use assms in auto)
    have f2: "filter (delivered E message recipients) [0..<length recipients]
            = filter (\<lambda>i. recipients ! i \<noteq> X) [0..<length recipients]"
      by (rule filter_cong) (use assms in auto)
    have F: "mset (Failed r) = mset (filter (\<lambda>t. t = X) recipients)"
      using returned_sent_failed(2)[OF I m] f1 filter_by_index[of recipients "\<lambda>t. t = X"] by simp
    have S: "mset (Sent r) = mset (filter (\<lambda>t. t \<noteq> X) recipients)"
      using returned_sent_failed(1)[OF I m] f2 filter_by_index[of recipients "\<lambda>t. t \<noteq> X"] by simp
    from F have Fs: "set (Failed r) = {t \<in> set recipients. t = X}"
      by (metis mset_eq_setD set_filter)
    from S have Ss: "set (Sent r) = {t \<in> set recipients. t \<noteq> X}"
      by (metis mset_eq_setD set_filter)
    from F S Fs Ss show ?thesis by auto
  qed
  from 1 2 3 show ?thesis by blast
qed

theorem one_failing_recipient_witness:
  "list_all (\<lambda>i. (\<not> delivered demo_twilio ''hi'' demo_recipients i) = (demo_recipients ! i = ''+2''))
        [0..<length demo_recipients]
   \<and> sendBulkSMS demo_twilio demo_sched demo_recipients ''hi''
     = Some (\<lparr>Sent = [''+3'', ''+1''], Failed = [''+2'', ''+2''], Total = 4\<rparr>,
             map (\<lambda>t. \<lparr>pTo = t, pFrom = ''+15550100'', pBody = ''hi''\<rparr>) [''+3'', ''+2'', ''+1'', ''+2''])
   \<and> mset [''+2'', ''+2''] = mset (filter (\<lambda>t. t = ''+2'') demo_recipients)
   \<and> mset [''+3'', ''+1''] = mset (filter (\<lambda>t. t \<noteq> ''+2'') demo_recipients)
   \<and> exec demo_twilio ''hi'' (take 12 demo_sched) (sendBulkSMS_init demo_recipients) \<noteq> None
   \<and> (\<exists>rest r log. sendBulkSMS demo_twilio (take 12 demo_sched @ rest) demo_recipients ''hi''
         = Some (r, log))"
proof -
  let ?r = "\<lparr>Sent = [''+3'', ''+1''], Failed = [''+2'', ''+2''], Total = 4\<rparr>"
  let ?log = "map (\<lambda>t. \<lparr>pTo = t, pFrom = ''+15550100'', pBody = ''hi''\<rparr>) [''+3'', ''+2'', ''+1'', ''+2'']"
  let ?s = "the (exec demo_twilio ''hi'' (take 12 demo_sched) (sendBulkSMS_init demo_recipients))"
  have e: "sendBulkSMS demo_twilio demo_sched demo_recipients ''hi'' = Some (?r, ?log)"
    by code_simp
  have h: "list_all (\<lambda>i. (\<not> delivered demo_twilio ''hi'' demo_recipients i) = (demo_recipients ! i = ''+2''))
        [0..<length demo_recipients]"
    by code_simp
  then have h': "\<forall>i < length demo_recipients.
      (\<not> delivered demo_twilio ''hi'' demo_recipients i) = (demo_recipients ! i = ''+2'')"
    by (simp add: list_all_iff)
  have p: "exec demo_twilio ''hi'' (take 12 demo_sched) (sendBulkSMS_init demo_recipients) = Some ?s"
    by code_simp
  note t = one_failing_recipient[OF h']
  from t e have "mset (Failed ?r) = mset (filter (\<lambda>t. t = ''+2'') demo_recipients)
      \<and> mset (Sent ?r) = mset (filter (\<lambda>t. t \<noteq> ''+2'') demo_recipients)" by blast
  then have 1: "mset [''+2'', ''+2''] = mset (filter (\<lambda>t. t = ''+2'') demo_recipients)"
    and 2: "mset [''+3'', ''+1''] = mset (filter (\<lambda>t. t \<noteq> ''+2'') demo_recipients)"
    by simp_all
  from t p have 3: "\<exists>rest r log. sendBulkSMS demo_twilio (take 12 demo_sched @ rest) demo_recipients ''hi''
         = Some (r, log)" by blast
  from p have 4: "exec demo_twilio ''hi'' (take 12 demo_sched) (sendBulkSMS_init demo_recipients) \<noteq> None"
    by (metis option.distinct(1))
  show ?thesis by (intro conjI h e 1 2 3 4)
qed

text \<open>
  C4. For every request the dispatcher returns a response (a complete run exists and
  every run so far can be continued to the caller's return), and in every response it
  returns \<open>Total\<close> is the length of the recipient list as supplied and the provider
  has been called once for every occurrence of a recipient, duplicates included: the
  calls made are, up to order, the parameters built from the list.
\<close>

theorem total_counts_every_occurrence:
  "(\<exists>sched r log. sendBulkSMS E sched recipients message = Some (r, log))
   \<and> (\<forall>sched s. exec E message sched (sendBulkSMS_init recipients) = Some s \<longrightarrow>
        (\<exists>rest r log. sendBulkSMS E (sched @ rest) recipients message = Some (r, log)))
   \<and> (\<forall>sched r log. sendBulkSMS E sched recipients message = Some (r, log) \<longrightarrow>
        Total r = int (length recipients)
        \<and> length log = length recipients
        \<and> mset (map pTo log) = mset recipients
        \<and> mset log = mset (map (\<lambda>t. sendSMS_params E t message) recipients))"
proof -
  have 1: "\<exists>sched r log. sendBulkSMS E sched recipients message = Some (r, log)"
    by (rule sendBulkSMS_completes)
  have 2: "\<exists>rest r log. sendBulkSMS E (sched @ rest) recipients message = Some (r, log)"
    if "exec E message sched (sendBulkSMS_init recipients) = Some s" for sched s
    using that by (rule extend_to_result)
  have 3: "Total r = int (length recipients)
        \<and> length log = length recipients
        \<and> mset (map pTo log) = mset recipients
        \<and> mset log = mset (map (\<lambda>t. sendSMS_params E t message) recipients)"
    if a: "sendBulkSMS E sched recipients message = Some (r, log)" for sched r log
  proof -
    from a obtain s where e: "exec E message sched (sendBulkSMS_init recipients) = Some s"
      and m: "main s = MReturned r" and c: "calls s = log"
      by (auto simp: sendBulkSMS_Some)
    note I = exec_inv[OF e]
    from I returned_done(1)[OF I m] have t: "Total r = int (length recipients)"
      by (simp add: inv_def inv_resp_def)
    from returned_calls[OF I m] c
    have l: "mset log = mset (map (\<lambda>t. sendSMS_params E t message) recipients)" by simp
    then have "size (mset log) = size (mset (map (\<lambda>t. sendSMS_params E t message) recipients))"
      by simp
    then have n: "length log = length recipients" by simp
    from l have "image_mset pTo (mset log)
        = image_mset pTo (mset (map (\<lambda>t. sendSMS_params E t message) recipients))" by simp
    then have p: "mset (map pTo log) = mset recipients"
      by (simp add: sendSMS_params_def image_mset.compositionality comp_def)
    from t l n p show ?thesis by simp
  qed
  from 1 2 3 show ?thesis by blast
qed

theorem total_counts_every_occurrence_witness:
  "sendBulkSMS demo_twilio demo_sched demo_recipients ''hi''
     = Some (\<lparr>Sent = [''+3'', ''+1''], Failed = [''+2'', ''+2''], Total = 4\<rparr>,
             map (\<lambda>t. \<lparr>pTo = t, pFrom = ''+15550100'', pBody = ''hi''\<rparr>) [''+3'', ''+2'', ''+1'', ''+2''])
   \<and> (4::int) = int (length demo_recipients)
   \<and> count (mset demo_recipients) ''+2'' = 2
   \<and> count (mset (map pTo (map (\<lambda>t. \<lparr>pTo = t, pFrom = ''+15550100'', pBody = ''hi''\<rparr>)
                                [''+3'', ''+2'', ''+1'', ''+2'']))) ''+2'' = 2
   \<and> exec demo_twilio ''hi'' (take 12 demo_sched) (sendBulkSMS_init demo_recipients) \<noteq> None
   \<and> (\<exists>rest r log. sendBulkSMS demo_twilio (take 12 demo_sched @ rest) demo_recipients ''hi''
         = Some (r, log))"
proof -
  let ?r = "\<lparr>Sent = [''+3'', ''+1''], Failed = [''+2'', ''+2''], Total = 4\<rparr>"
  let ?log = "map (\<lambda>t. \<lparr>pTo = t, pFrom = ''+15550100'', pBody = ''hi''\<rparr>) [''+3'', ''+2'', ''+1'', ''+2'']"
  let ?s = "the (exec demo_twilio ''hi'' (take 12 demo_sched) (sendBulkSMS_init demo_recipients))"
  have e: "sendBulkSMS demo_twilio demo_sched demo_recipients ''hi'' = Some (?r, ?log)"
    by code_simp
  have d: "count (mset demo_recipients) ''+2'' = 2"
    by (simp add: demo_recipients_def)
  have p: "exec demo_twilio ''hi'' (take 12 demo_sched) (sendBulkSMS_init demo_recipients) = Some ?s"
    by code_simp
  note t = total_counts_every_occurrence[of demo_twilio demo_recipients "''hi''"]
  from t e have "Total ?r = int (length demo_recipients) \<and> mset (map pTo ?log) = mset demo_recipients"
    by blast
  then have 1: "(4::int) = int (length demo_recipients)"
    and "mset (map pTo ?log) = mset demo_recipients" by simp_all
  with d have 2: "count (mset (map pTo ?log)) ''+2'' = 2" by simp
  from t p have 3: "\<exists>rest r log. sendBulkSMS demo_twilio (take 12 demo_sched @ rest) demo_recipients ''hi''
         = Some (r, log)" by blast
  from p have 4: "exec demo_twilio ''hi'' (take 12 demo_sched) (sendBulkSMS_init demo_recipients) \<noteq> None"
    by (metis option.distinct(1))
  show ?thesis by (intro conjI e 1 d 2 3 4)
qed

text \<open>
  C5. For the empty recipient list the first step of the caller is its return: the
  response is \<open>{Sent: [], Failed: [], Total: 0}\<close>. No other response can come back,
  no goroutine is ever started and the provider is never called.
\<close>

theorem empty_list_returns_at_once:
  "sendBulkSMS E [Main] [] message = Some (\<lparr>Sent = [], Failed = [], Total = 0\<rparr>, [])
   \<and> (\<forall>sched r log. sendBulkSMS E sched [] message = Some (r, log) \<longrightarrow>
         r = \<lparr>Sent = [], Failed = [], Total = 0\<rparr> \<and> log = [])
   \<and> (\<forall>sched s. exec E message sched (sendBulkSMS_init []) = Some s \<longrightarrow>
         workers s = [] \<and> calls s = [])"
  using sendBulkSMS_empty_run sendBulkSMS_empty_only exec_empty(1,2) by blast

theorem empty_list_returns_at_once_witness:
  "sendBulkSMS demo_twilio [Main] [] ''hi'' = Some (\<lparr>Sent = [], Failed = [], Total = 0\<rparr>, [])
   \<and> exec demo_twilio ''hi'' [Main] (sendBulkSMS_init [])
       = Some \<lparr>main = MReturned \<lparr>Sent = [], Failed = [], Total = 0\<rparr>, workers = [],
               semaphore = 0, mu = False, wg = 0,
               response = \<lparr>Sent = [], Failed = [], Total = 0\<rparr>, calls = []\<rparr>
   \<and> sendBulkSMS demo_twilio [] [] ''hi'' = None
   \<and> sendBulkSMS demo_twilio [Main, Main] [] ''hi'' = None"
proof -
  have a: "exec demo_twilio ''hi'' [Main] (sendBulkSMS_init [])
       = Some \<lparr>main = MReturned \<lparr>Sent = [], Failed = [], Total = 0\<rparr>, workers = [],
               semaphore = 0, mu = False, wg = 0,
               response = \<lparr>Sent = [], Failed = [], Total = 0\<rparr>, calls = []\<rparr>"
    by (simp add: sendBulkSMS_init_def)
  have b: "sendBulkSMS demo_twilio [] [] ''hi'' = None"
    "sendBulkSMS demo_twilio [Main, Main] [] ''hi'' = None"
    by (simp_all add: sendBulkSMS_def sendBulkSMS_init_def)
  from empty_list_returns_at_once[of demo_twilio "''hi''"] a b show ?thesis by blast
qed

text \<open>
  C6. For a POST whose body the decoder accepts, the bulk endpoint always answers: a
  complete run exists, and every complete run answers 200 with the finished response,
  in which every recipient is in \<open>Sent\<close> or \<open>Failed\<close> and for which every recipient was
  attempted, whatever the provider answered for the others. There is no other outcome:
  from every state an interleaving can reach, no step panics, some actor can take a
  step unless the caller has returned, the run has at most \<open>9 * len(recipients) + 1\<close>
  steps, and it can be continued to the caller's return.
\<close>

theorem bulk_endpoint_always_completes:
  assumes "method = MethodPost" and "decode body = Inr req"
  shows "(\<exists>sched resp log. sendBulkSMSHandler E decode sched method body = Some (resp, log))
       \<and> (\<forall>sched resp log.
            sendBulkSMSHandler E decode sched method body = Some (resp, log) \<longrightarrow>
              status resp = 200
              \<and> (\<exists>r. payload resp = BulkJSON r
                     \<and> mset (Sent r) + mset (Failed r) = mset (To req)
                     \<and> Total r = int (length (To req)))
              \<and> mset (map pTo log) = mset (To req))
       \<and> (\<forall>sched s.
            exec E (Message req) sched (sendBulkSMS_init (To req)) = Some s \<longrightarrow>
              (\<forall>a. fire E (Message req) a s \<noteq> Panics)
              \<and> ((\<exists>r. main s = MReturned r) \<or> can_step E (Message req) s)
              \<and> length sched \<le> 9 * length (To req) + 1
              \<and> (\<exists>rest s' r.
                    exec E (Message req) (sched @ rest) (sendBulkSMS_init (To req)) = Some s'
                    \<and> main s' = MReturned r))"
proof (intro conjI allI impI)
  from sendBulkSMS_completes[of E "To req" "Message req"]
  obtain sched r log where "sendBulkSMS E sched (To req) (Message req) = Some (r, log)" by blast
  then have "sendBulkSMSHandler E decode sched method body
      = Some (\<lparr>status = StatusOK, payload = BulkJSON r\<rparr>, log)"
    using sendBulkSMSHandler_ok[where decode = decode and body = body and req = req, OF assms] by blast
  then show "\<exists>sched resp log. sendBulkSMSHandler E decode sched method body = Some (resp, log)"
    by blast
next
  fix sched resp log
  assume h: "sendBulkSMSHandler E decode sched method body = Some (resp, log)"
  then obtain r where r: "sendBulkSMS E sched (To req) (Message req) = Some (r, log)"
    and resp: "resp = \<lparr>status = StatusOK, payload = BulkJSON r\<rparr>"
    using sendBulkSMSHandler_ok[where decode = decode and body = body and req = req, OF assms] by blast
  from r obtain s where e: "exec E (Message req) sched (sendBulkSMS_init (To req)) = Some s"
    and m: "main s = MReturned r" and c: "calls s = log"
    by (auto simp: sendBulkSMS_Some)
  note I = exec_inv[OF e]
  from resp show "status resp = 200" by (simp add: StatusOK_def)
  from I returned_done(1)[OF I m] have "Total r = int (length (To req))"
    by (simp add: inv_def inv_resp_def)
  with resp returned_partition[OF I m]
  show "\<exists>r. payload resp = BulkJSON r
                     \<and> mset (Sent r) + mset (Failed r) = mset (To req)
                     \<and> Total r = int (length (To req))" by simp
  from returned_calls[OF I m] c
  have "image_mset pTo (mset log)
      = image_mset pTo (mset (map (\<lambda>t. sendSMS_params E t (Message req)) (To req)))" by simp
  then show "mset (map pTo log) = mset (To req)"
    by (simp add: sendSMS_params_def image_mset.compositionality comp_def)
next
  fix sched s a
  assume e: "exec E (Message req) sched (sendBulkSMS_init (To req)) = Some s"
  from no_panic[OF exec_inv[OF e]] show "fire E (Message req) a s \<noteq> Panics" .
next
  fix sched s
  assume e: "exec E (Message req) sched (sendBulkSMS_init (To req)) = Some s"
  show "(\<exists>r. main s = MReturned r) \<or> can_step E (Message req) s"
  proof (cases "main s")
    case (MLoop rest)
    from progress[OF exec_inv[OF e] MLoop] show ?thesis by simp
  next
    case (MReturned r)
    then show ?thesis by simp
  qed
next
  fix sched s
  assume e: "exec E (Message req) sched (sendBulkSMS_init (To req)) = Some s"
  from exec_work[OF e] show "length sched \<le> 9 * length (To req) + 1"
    by (simp add: work_init)
next
  fix sched s
  assume e: "exec E (Message req) sched (sendBulkSMS_init (To req)) = Some s"
  from extend_to_return[OF e]
  show "\<exists>rest s' r.
          exec E (Message req) (sched @ rest) (sendBulkSMS_init (To req)) = Some s'
          \<and> main s' = MReturned r" .
qed

theorem bulk_endpoint_always_completes_witness:
  \<open>demo_decode_bulk ''{"to":["+1","+2","+3","+2"],"message":"hi"}''
     = Inr \<lparr>To = demo_recipients, Message = ''hi''\<rparr>
   \<and> sendBulkSMSHandler demo_twilio demo_decode_bulk demo_sched ''POST''
        ''{"to":["+1","+2","+3","+2"],"message":"hi"}''
     = Some (\<lparr>status = 200,
               payload = BulkJSON \<lparr>Sent = [''+3'', ''+1''], Failed = [''+2'', ''+2''], Total = 4\<rparr>\<rparr>,
             map (\<lambda>t. \<lparr>pTo = t, pFrom = ''+15550100'', pBody = ''hi''\<rparr>)
               [''+3'', ''+2'', ''+1'', ''+2''])
   \<and> mset (map pTo (map (\<lambda>t. \<lparr>pTo = t, pFrom = ''+15550100'', pBody = ''hi''\<rparr>)
               [''+3'', ''+2'', ''+1'', ''+2''])) = mset demo_recipients
   \<and> exec demo_twilio ''hi'' (take 12 demo_sched) (sendBulkSMS_init demo_recipients) \<noteq> None
   \<and> can_step demo_twilio ''hi''
        (the (exec demo_twilio ''hi'' (take 12 demo_sched) (sendBulkSMS_init demo_recipients)))\<close>
proof -
  let ?body = \<open>''{"to":["+1","+2","+3","+2"],"message":"hi"}''\<close>
  let ?log = "map (\<lambda>t. \<lparr>pTo = t, pFrom = ''+15550100'', pBody = ''hi''\<rparr>)
               [''+3'', ''+2'', ''+1'', ''+2'']"
  let ?s = "the (exec demo_twilio ''hi'' (take 12 demo_sched) (sendBulkSMS_init demo_recipients))"
  have p: "''POST'' = MethodPost" by (simp add: MethodPost_def)
  have d: "demo_decode_bulk ?body = Inr \<lparr>To = demo_recipients, Message = ''hi''\<rparr>"
    by (simp add: demo_decode_bulk_def)
  have h: "sendBulkSMSHandler demo_twilio demo_decode_bulk demo_sched ''POST'' ?body
     = Some (\<lparr>status = 200,
               payload = BulkJSON \<lparr>Sent = [''+3'', ''+1''], Failed = [''+2'', ''+2''], Total = 4\<rparr>\<rparr>, ?log)"
    by code_simp
  have e: "exec demo_twilio ''hi'' (take 12 demo_sched) (sendBulkSMS_init demo_recipients) = Some ?s"
    by code_simp
  have "main ?s = MLoop []"
    by code_simp
  then have l: "\<forall>r. main ?s \<noteq> MReturned r"
    by simp
  note t = bulk_endpoint_always_completes[where decode = demo_decode_bulk and body = ?body and E = demo_twilio, OF p d]
  from t h have 1: "mset (map pTo ?log) = mset demo_recipients" by fastforce
  from t e have "(\<exists>r. main ?s = MReturned r) \<or> can_step demo_twilio ''hi'' ?s"
    by (metis SMSRequest.select_convs(1,2))
  with l have 2: "can_step demo_twilio ''hi'' ?s" by blast
  from e have 3: "exec demo_twilio ''hi'' (take 12 demo_sched) (sendBulkSMS_init demo_recipients) \<noteq> None"
    by (metis option.distinct(1))
  show ?thesis by (intro conjI d h 1 2 3)
qed

text \<open>
  C7. \<open>sendSMS\<close> makes exactly one provider call, with the recipient, the configured
  sender and the message. It returns \<open>nil\<close> exactly when the provider succeeds, and for
  any provider error the one error \<open>error al enviar SMS: \<close> followed by the provider
  error's text, whatever kind of error it was.
\<close>

theorem sendSMS_one_call:
  "snd (sendSMS E k to message log)
     = log @ [\<lparr>pTo = to, pFrom = FromPhone (twilioConfig E), pBody = message\<rparr>]
   \<and> (fst (sendSMS E k to message log) = None \<longleftrightarrow>
        CreateMessage E k \<lparr>pTo = to, pFrom = FromPhone (twilioConfig E), pBody = message\<rparr> = None)
   \<and> (\<forall>e. CreateMessage E k \<lparr>pTo = to, pFrom = FromPhone (twilioConfig E), pBody = message\<rparr>
              = Some e \<longrightarrow>
        fst (sendSMS E k to message log) = Some (''error al enviar SMS: '' @ errorText E e))"
  by (simp add: sendSMS_def sendSMS_params_def sendSMS_err_def Let_def split: option.splits)

theorem sendSMS_one_call_witness:
  "CreateMessage demo_twilio 0 \<lparr>pTo = ''+2'', pFrom = FromPhone (twilioConfig demo_twilio), pBody = ''hi''\<rparr>
     = Some ''invalid number''
   \<and> sendSMS demo_twilio 0 ''+2'' ''hi'' []
     = (Some ''error al enviar SMS: invalid number'',
        [\<lparr>pTo = ''+2'', pFrom = ''+15550100'', pBody = ''hi''\<rparr>])
   \<and> sendSMS demo_twilio 0 ''+1'' ''hi'' []
     = (None, [\<lparr>pTo = ''+1'', pFrom = ''+15550100'', pBody = ''hi''\<rparr>])"
proof -
  have c: "CreateMessage demo_twilio 0
      \<lparr>pTo = ''+2'', pFrom = FromPhone (twilioConfig demo_twilio), pBody = ''hi''\<rparr>
     = Some ''invalid number''"
    by (simp add: demo_twilio_def)
  have f: "FromPhone (twilioConfig demo_twilio) = ''+15550100''" "errorText demo_twilio = (\<lambda>e. e)"
    by (simp_all add: demo_twilio_def)
  have c1: "CreateMessage demo_twilio 0
      \<lparr>pTo = ''+1'', pFrom = FromPhone (twilioConfig demo_twilio), pBody = ''hi''\<rparr> = None"
    by (simp add: demo_twilio_def)
  note t2 = sendSMS_one_call[of demo_twilio 0 "''+2''" "''hi''" "[]"]
  note t1 = sendSMS_one_call[of demo_twilio 0 "''+1''" "''hi''" "[]"]
  from t2 c f have a: "sendSMS demo_twilio 0 ''+2'' ''hi'' []
     = (Some ''error al enviar SMS: invalid number'',
        [\<lparr>pTo = ''+2'', pFrom = ''+15550100'', pBody = ''hi''\<rparr>])"
    by (simp add: prod_eq_iff)
  from t1 c1 f have b: "sendSMS demo_twilio 0 ''+1'' ''hi'' []
     = (None, [\<lparr>pTo = ''+1'', pFrom = ''+15550100'', pBody = ''hi''\<rparr>])"
    by (simp add: prod_eq_iff)
  show ?thesis by (intro conjI c a b)
qed

text \<open>
  C8. Both send endpoints answer a method other than POST with 405, whatever the body
  and the decoder. A POST whose body has no complete first JSON value, or more generally
  one for which \<open>Decode\<close> returns an error, is answered with 400. In both cases the log
  of provider calls is empty, and for the bulk endpoint the answer does not depend on
  any schedule: no goroutine is started. This is less than rejecting every malformed
  body: \<open>Decode\<close> reads one value and does not look at what follows it.
\<close>

theorem rejected_requests_make_no_calls:
  "(verb \<noteq> MethodPost \<longrightarrow>
      sendSMSHandler E dsingle verb sbody
        = (http_Error metodo_no_permitido StatusMethodNotAllowed, [])
      \<and> sendBulkSMSHandler E dbulk sched verb bbody
        = Some (http_Error metodo_no_permitido StatusMethodNotAllowed, []))
   \<and> (verb = MethodPost \<and> first_value body = None \<longrightarrow>
        sendSMSHandler E decode_SingleRequest verb body
          = (http_Error request_invalido StatusBadRequest, [])
        \<and> sendBulkSMSHandler E (decode_SMSRequest growcap) sched verb body
          = Some (http_Error request_invalido StatusBadRequest, []))
   \<and> (verb = MethodPost \<and> decode_SingleRequest body = Inl esingle \<longrightarrow>
        sendSMSHandler E decode_SingleRequest verb body
          = (http_Error request_invalido StatusBadRequest, []))
   \<and> (verb = MethodPost \<and> decode_SMSRequest growcap body = Inl ebulk \<longrightarrow>
        sendBulkSMSHandler E (decode_SMSRequest growcap) sched verb body
          = Some (http_Error request_invalido StatusBadRequest, []))
   \<and> status (http_Error metodo_no_permitido StatusMethodNotAllowed) = 405
   \<and> status (http_Error request_invalido StatusBadRequest) = 400"
  by (simp add: sendSMSHandler_def sendBulkSMSHandler_def http_Error_def
        StatusMethodNotAllowed_def StatusBadRequest_def
        decode_SMSRequest_no_value decode_SingleRequest_no_value)

theorem rejected_requests_make_no_calls_witness:
  \<open>sendSMSHandler demo_twilio decode_SingleRequest ''GET'' ''{"to":"+1","message":"hi"}''
     = (http_Error metodo_no_permitido 405, [])
   \<and> sendBulkSMSHandler demo_twilio (decode_SMSRequest demo_growcap) demo_sched ''GET''
        ''{"to":["+1","+2","+3","+2"],"message":"hi"}''
     = Some (http_Error metodo_no_permitido 405, [])
   \<and> first_value ''{"to":["+1",'' = None
   \<and> sendSMSHandler demo_twilio decode_SingleRequest ''POST'' ''{"to":["+1",''
     = (http_Error request_invalido 400, [])
   \<and> sendBulkSMSHandler demo_twilio (decode_SMSRequest demo_growcap) demo_sched ''POST''
        ''{"to":["+1",''
     = Some (http_Error request_invalido 400, [])
   \<and> decode_SMSRequest demo_growcap ''{"to":"+1","message":"hi"}'' = Inl ''cannot unmarshal''
   \<and> sendBulkSMSHandler demo_twilio (decode_SMSRequest demo_growcap) demo_sched ''POST''
        ''{"to":"+1","message":"hi"}''
     = Some (http_Error request_invalido 400, [])
   \<and> decode_SingleRequest ''{"to":["+1"],"message":"hi"}'' = Inl ''cannot unmarshal''
   \<and> sendSMSHandler demo_twilio decode_SingleRequest ''POST'' ''{"to":["+1"],"message":"hi"}''
     = (http_Error request_invalido 400, [])\<close>
proof -
  have g: "''GET'' \<noteq> MethodPost" and p: "''POST'' = MethodPost"
    by (simp_all add: MethodPost_def)
  have n: \<open>first_value ''{"to":["+1",'' = None\<close>
    by code_simp
  have b: \<open>decode_SMSRequest demo_growcap ''{"to":"+1","message":"hi"}'' = Inl ''cannot unmarshal''\<close>
    by code_simp
  have s: \<open>decode_SingleRequest ''{"to":["+1"],"message":"hi"}'' = Inl ''cannot unmarshal''\<close>
    by code_simp
  note t1 = rejected_requests_make_no_calls[where verb = "''GET''" and E = demo_twilio
      and dsingle = decode_SingleRequest and dbulk = "decode_SMSRequest demo_growcap"
      and sched = demo_sched
      and sbody = \<open>''{"to":"+1","message":"hi"}''\<close>
      and bbody = \<open>''{"to":["+1","+2","+3","+2"],"message":"hi"}''\<close>]
  note t2 = rejected_requests_make_no_calls[where verb = "''POST''" and E = demo_twilio
      and growcap = demo_growcap and sched = demo_sched and body = \<open>''{"to":["+1",''\<close>]
  note t3 = rejected_requests_make_no_calls[where verb = "''POST''" and E = demo_twilio
      and growcap = demo_growcap and sched = demo_sched
      and body = \<open>''{"to":"+1","message":"hi"}''\<close> and ebulk = "''cannot unmarshal''"]
  note t4 = rejected_requests_make_no_calls[where verb = "''POST''" and E = demo_twilio
      and body = \<open>''{"to":["+1"],"message":"hi"}''\<close> and esingle = "''cannot unmarshal''"]
  from t1 g have 1: \<open>sendSMSHandler demo_twilio decode_SingleRequest ''GET'' ''{"to":"+1","message":"hi"}''
     = (http_Error metodo_no_permitido 405, [])\<close>
    and 2: \<open>sendBulkSMSHandler demo_twilio (decode_SMSRequest demo_growcap) demo_sched ''GET''
        ''{"to":["+1","+2","+3","+2"],"message":"hi"}''
     = Some (http_Error metodo_no_permitido 405, [])\<close>
    by (simp_all add: StatusMethodNotAllowed_def)
  from t2 p n have 3: \<open>sendSMSHandler demo_twilio decode_SingleRequest ''POST'' ''{"to":["+1",''
     = (http_Error request_invalido 400, [])\<close>
    and 4: \<open>sendBulkSMSHandler demo_twilio (decode_SMSRequest demo_growcap) demo_sched ''POST''
        ''{"to":["+1",''
     = Some (http_Error request_invalido 400, [])\<close>
    by (simp_all add: StatusBadRequest_def)
  from t3 p b have 5: \<open>sendBulkSMSHandler demo_twilio (decode_SMSRequest demo_growcap) demo_sched ''POST''
        ''{"to":"+1","message":"hi"}''
     = Some (http_Error request_invalido 400, [])\<close>
    by (simp add: StatusBadRequest_def)
  from t4 p s have 6: \<open>sendSMSHandler demo_twilio decode_SingleRequest ''POST'' ''{"to":["+1"],"message":"hi"}''
     = (http_Error request_invalido 400, [])\<close>
    by (simp add: StatusBadRequest_def)
  show ?thesis by (intro conjI 1 2 n 3 4 b 5 s 6)
qed

text \<open>
  A body that is not a JSON text because of what follows its first value is not
  rejected: each endpoint decodes the value, calls the provider and answers 200.
\<close>

theorem trailing_data_is_dispatched:
  \<open>\<not> json_text ''{"to":["+1"],"message":"hi"}x''
   \<and> sendBulkSMSHandler demo_twilio (decode_SMSRequest demo_growcap)
        (Main # replicate 8 (Worker 0) @ [Main]) ''POST'' ''{"to":["+1"],"message":"hi"}x''
     = Some (\<lparr>status = 200, payload = BulkJSON \<lparr>Sent = [''+1''], Failed = [], Total = 1\<rparr>\<rparr>,
             [\<lparr>pTo = ''+1'', pFrom = ''+15550100'', pBody = ''hi''\<rparr>])
   \<and> \<not> json_text ''{"to":"+1","message":"hi"}]]''
   \<and> sendSMSHandler demo_twilio decode_SingleRequest ''POST'' ''{"to":"+1","message":"hi"}]]''
     = (\<lparr>status = 200,
         payload = StatusJSON [(''status'', ''success''),
                               (''message'', ''SMS enviado correctamente''), (''to'', ''+1'')]\<rparr>,
        [\<lparr>pTo = ''+1'', pFrom = ''+15550100'', pBody = ''hi''\<rparr>])\<close>
  by code_simp

text \<open>
  C9. For every request the dispatcher returns a response (a complete run exists and
  every run so far can be continued to the caller's return), and in every response it
  returns every occurrence of a recipient is recorded exactly once, in \<open>Sent\<close> when
  the provider call made for that occurrence succeeded and in \<open>Failed\<close> otherwise: as
  multisets, \<open>Sent\<close> and \<open>Failed\<close> together are the recipient list.
\<close>

theorem sent_failed_partition:
  "(\<exists>sched r log. sendBulkSMS E sched recipients message = Some (r, log))
   \<and> (\<forall>sched s. exec E message sched (sendBulkSMS_init recipients) = Some s \<longrightarrow>
        (\<exists>rest r log. sendBulkSMS E (sched @ rest) recipients message = Some (r, log)))
   \<and> (\<forall>sched r log. sendBulkSMS E sched recipients message = Some (r, log) \<longrightarrow>
        mset (Sent r)
          = mset (map ((!) recipients)
                   (filter (delivered E message recipients) [0..<length recipients]))
        \<and> mset (Failed r)
          = mset (map ((!) recipients)
                   (filter (\<lambda>i. \<not> delivered E message recipients i) [0..<length recipients]))
        \<and> mset (Sent r) + mset (Failed r) = mset recipients)"
proof -
  have 1: "\<exists>sched r log. sendBulkSMS E sched recipients message = Some (r, log)"
    by (rule sendBulkSMS_completes)
  have 2: "\<exists>rest r log. sendBulkSMS E (sched @ rest) recipients message = Some (r, log)"
    if "exec E message sched (sendBulkSMS_init recipients) = Some s" for sched s
    using that by (rule extend_to_result)
  have 3: "mset (Sent r)
          = mset (map ((!) recipients)
                   (filter (delivered E message recipients) [0..<length recipients]))
        \<and> mset (Failed r)
          = mset (map ((!) recipients)
                   (filter (\<lambda>i. \<not> delivered E message recipients i) [0..<length recipients]))
        \<and> mset (Sent r) + mset (Failed r) = mset recipients"
    if a: "sendBulkSMS E sched recipients message = Some (r, log)" for sched r log
  proof -
    from a obtain s where e: "exec E message sched (sendBulkSMS_init recipients) = Some s"
      and m: "main s = MReturned r"
      by (auto simp: sendBulkSMS_Some)
    note I = exec_inv[OF e]
    from returned_sent_failed[OF I m] returned_partition[OF I m] show ?thesis by simp
  qed
  from 1 2 3 show ?thesis by blast
qed

theorem sent_failed_partition_witness:
  "sendBulkSMS demo_twilio demo_sched demo_recipients ''hi''
     = Some (\<lparr>Sent = [''+3'', ''+1''], Failed = [''+2'', ''+2''], Total = 4\<rparr>,
             map (\<lambda>t. \<lparr>pTo = t, pFrom = ''+15550100'', pBody = ''hi''\<rparr>) [''+3'', ''+2'', ''+1'', ''+2''])
   \<and> filter (delivered demo_twilio ''hi'' demo_recipients) [0..<length demo_recipients] = [0, 2]
   \<and> mset [''+3'', ''+1''] = mset (map ((!) demo_recipients) [0, 2])
   \<and> mset [''+3'', ''+1''] + mset [''+2'', ''+2''] = mset demo_recipients
   \<and> exec demo_twilio ''hi'' (take 12 demo_sched) (sendBulkSMS_init demo_recipients) \<noteq> None
   \<and> (\<exists>rest r log. sendBulkSMS demo_twilio (take 12 demo_sched @ rest) demo_recipients ''hi''
         = Some (r, log))"
proof -
  let ?r = "\<lparr>Sent = [''+3'', ''+1''], Failed = [''+2'', ''+2''], Total = 4\<rparr>"
  let ?log = "map (\<lambda>t. \<lparr>pTo = t, pFrom = ''+15550100'', pBody = ''hi''\<rparr>) [''+3'', ''+2'', ''+1'', ''+2'']"
  let ?s = "the (exec demo_twilio ''hi'' (take 12 demo_sched) (sendBulkSMS_init demo_recipients))"
  have e: "sendBulkSMS demo_twilio demo_sched demo_recipients ''hi'' = Some (?r, ?log)"
    by code_simp
  have d: "filter (delivered demo_twilio ''hi'' demo_recipients) [0..<length demo_recipients] = [0, 2]"
    by code_simp
  have q: "mset [''+3'', ''+1''] = mset (map ((!) demo_recipients) [0, 2])"
    by (simp add: demo_recipients_def)
  have p: "exec demo_twilio ''hi'' (take 12 demo_sched) (sendBulkSMS_init demo_recipients) = Some ?s"
    by code_simp
  note t = sent_failed_partition[of demo_twilio demo_recipients "''hi''"]
  from t e have "mset (Sent ?r) + mset (Failed ?r) = mset demo_recipients"
    by blast
  then have 1: "mset [''+3'', ''+1''] + mset [''+2'', ''+2''] = mset demo_recipients"
    by simp
  from t p have 3: "\<exists>rest r log. sendBulkSMS demo_twilio (take 12 demo_sched @ rest) demo_recipients ''hi''
         = Some (r, log)" by blast
  from p have 4: "exec demo_twilio ''hi'' (take 12 demo_sched) (sendBulkSMS_init demo_recipients) \<noteq> None"
    by (metis option.distinct(1))
  show ?thesis by (intro conjI e d q 1 3 4)
qed

text \<open>
  C10. The bulk handler does not check that recipients are present. A POST whose body
  begins with a JSON object in which every member named \<open>to\<close> (in any letter case) is
  null, or which has no such member, and in which every member named \<open>message\<close> is a
  string or null, is decoded without error to a request with no recipients: the handler
  answers 200 with \<open>{sent: [], failed: [], total: 0}\<close> after the caller's single step,
  no other answer is possible, and the provider is not called. The condition on the
  other members is needed: see the body below.
\<close>

theorem absent_to_yields_empty_result:
  assumes "verb = MethodPost"
    and "first_value body = Some (JObject members, rest)"
    and "\<forall>(k, v) \<in> set members.
      (matches_field ''to'' k \<longrightarrow> v = JNull)
      \<and> (matches_field ''message'' k \<longrightarrow> v = JNull \<or> (\<exists>s. v = JString s))"
  shows "(\<exists>msg. decode_SMSRequest growcap body = Inr \<lparr>To = [], Message = msg\<rparr>)
       \<and> sendBulkSMSHandler E (decode_SMSRequest growcap) [Main] verb body
           = Some (\<lparr>status = 200, payload = BulkJSON \<lparr>Sent = [], Failed = [], Total = 0\<rparr>\<rparr>, [])
       \<and> (\<forall>sched out.
             sendBulkSMSHandler E (decode_SMSRequest growcap) sched verb body = Some out \<longrightarrow>
             out = (\<lparr>status = 200, payload = BulkJSON \<lparr>Sent = [], Failed = [], Total = 0\<rparr>\<rparr>, []))"
proof -
  from decode_no_recipients[OF assms(2,3), of growcap]
  obtain msg where d: "decode_SMSRequest growcap body = Inr \<lparr>To = [], Message = msg\<rparr>" by blast
  have 1: "sendBulkSMSHandler E (decode_SMSRequest growcap) [Main] verb body
           = Some (\<lparr>status = 200, payload = BulkJSON \<lparr>Sent = [], Failed = [], Total = 0\<rparr>\<rparr>, [])"
    using assms(1) d sendBulkSMS_empty_run[of E msg]
    by (simp add: sendBulkSMSHandler_def StatusOK_def)
  have 2: "out = (\<lparr>status = 200, payload = BulkJSON \<lparr>Sent = [], Failed = [], Total = 0\<rparr>\<rparr>, [])"
    if h: "sendBulkSMSHandler E (decode_SMSRequest growcap) sched verb body = Some out"
    for sched out
  proof -
    obtain resp log where out: "out = (resp, log)" by (cases out)
    with h sendBulkSMSHandler_ok[where decode = "decode_SMSRequest growcap" and body = body
        and req = "\<lparr>To = [], Message = msg\<rparr>", OF assms(1) d, of E sched resp log]
    obtain r where r: "sendBulkSMS E sched [] msg = Some (r, log)"
      and resp: "resp = \<lparr>status = StatusOK, payload = BulkJSON r\<rparr>" by auto
    from sendBulkSMS_empty_only[OF r] resp out show ?thesis by (simp add: StatusOK_def)
  qed
  from d 1 2 show ?thesis by blast
qed

theorem absent_to_yields_empty_result_witness:
  \<open>first_value ''{"message":"hi"}'' = Some (JObject [(''message'', JString ''hi'')], [])
   \<and> decode_SMSRequest demo_growcap ''{"message":"hi"}'' = Inr \<lparr>To = [], Message = ''hi''\<rparr>
   \<and> sendBulkSMSHandler demo_twilio (decode_SMSRequest demo_growcap) [Main] ''POST''
        ''{"message":"hi"}''
       = Some (\<lparr>status = 200, payload = BulkJSON \<lparr>Sent = [], Failed = [], Total = 0\<rparr>\<rparr>, [])
   \<and> first_value ''{"To":null,"message":"hi","id":[7]} ''
       = Some (JObject [(''To'', JNull), (''message'', JString ''hi''),
                        (''id'', JArray [JNumber ''7''])], [])
   \<and> sendBulkSMSHandler demo_twilio (decode_SMSRequest demo_growcap) [Main] ''POST''
        ''{"To":null,"message":"hi","id":[7]} ''
       = Some (\<lparr>status = 200, payload = BulkJSON \<lparr>Sent = [], Failed = [], Total = 0\<rparr>\<rparr>, [])\<close>
proof -
  have p: "''POST'' = MethodPost" by (simp add: MethodPost_def)
  have f1: \<open>first_value ''{"message":"hi"}'' = Some (JObject [(''message'', JString ''hi'')], [])\<close>
    by code_simp
  have f2: \<open>first_value ''{"To":null,"message":"hi","id":[7]} ''
       = Some (JObject [(''To'', JNull), (''message'', JString ''hi''),
                        (''id'', JArray [JNumber ''7''])], [])\<close>
    by code_simp
  have m: "\<not> matches_field ''to'' ''message''" "\<not> matches_field ''message'' ''To''"
    "\<not> matches_field ''to'' ''id''" "\<not> matches_field ''message'' ''id''"
    by code_simp+
  have h1: "\<forall>(k, v) \<in> set [(''message'', JString ''hi'')].
      (matches_field ''to'' k \<longrightarrow> v = JNull)
      \<and> (matches_field ''message'' k \<longrightarrow> v = JNull \<or> (\<exists>s. v = JString s))"
    using m by simp
  have h2: "\<forall>(k, v) \<in> set [(''To'', JNull), (''message'', JString ''hi''),
                        (''id'', JArray [JNumber ''7''])].
      (matches_field ''to'' k \<longrightarrow> v = JNull)
      \<and> (matches_field ''message'' k \<longrightarrow> v = JNull \<or> (\<exists>s. v = JString s))"
    using m by simp
  have d: \<open>decode_SMSRequest demo_growcap ''{"message":"hi"}'' = Inr \<lparr>To = [], Message = ''hi''\<rparr>\<close>
    by code_simp
  from absent_to_yields_empty_result[OF p f1 h1, of demo_growcap demo_twilio]
  have 1: \<open>sendBulkSMSHandler demo_twilio (decode_SMSRequest demo_growcap) [Main] ''POST''
        ''{"message":"hi"}''
       = Some (\<lparr>status = 200, payload = BulkJSON \<lparr>Sent = [], Failed = [], Total = 0\<rparr>\<rparr>, [])\<close>
    by blast
  from absent_to_yields_empty_result[OF p f2 h2, of demo_growcap demo_twilio]
  have 2: \<open>sendBulkSMSHandler demo_twilio (decode_SMSRequest demo_growcap) [Main] ''POST''
        ''{"To":null,"message":"hi","id":[7]} ''
       = Some (\<lparr>status = 200, payload = BulkJSON \<lparr>Sent = [], Failed = [], Total = 0\<rparr>\<rparr>, [])\<close>
    by blast
  show ?thesis by (intro conjI f1 d 1 f2 2)
qed

text \<open>
  A body can be a JSON text without a \<open>to\<close> member and still be rejected with 400: an
  object whose \<open>message\<close> is a number, or a value that is not an object.
\<close>

theorem valid_body_without_to_is_rejected:
  \<open>json_text ''{"message":5}''
   \<and> first_value ''{"message":5}'' = Some (JObject [(''message'', JNumber ''5'')], [])
   \<and> sendBulkSMSHandler demo_twilio (decode_SMSRequest demo_growcap) [Main] ''POST''
        ''{"message":5}''
       = Some (http_Error request_invalido 400, [])
   \<and> json_text ''[]''
   \<and> sendBulkSMSHandler demo_twilio (decode_SMSRequest demo_growcap) [Main] ''POST'' ''[]''
       = Some (http_Error request_invalido 400, [])\<close>
  by code_simp


end
